theory Spec2Isabelle
  imports Complex_Main
begin

section \<open>Data model (convex/schema.ts)\<close>

text \<open>
  A TypeScript \<open>number\<close> is modelled as a \<open>real\<close>: exact arithmetic, no rounding and no
  NaN or Infinity. Timestamps are the values of \<open>Date.now()\<close> in milliseconds; every
  handler receives its value of \<open>Date.now()\<close> as the argument \<open>now\<close> (the Convex runtime
  freezes the clock for the duration of one query or mutation).
  A Convex document id is modelled as a natural number, the system field \<open>_id\<close> is the
  record field \<open>docId\<close>, and an optional field is an \<open>option\<close>.
  A table is the list of its documents in insertion order (the order of the system field
  \<open>_creationTime\<close>, which is what \<open>collect()\<close> without an index returns).
  Several tables share field names; the short names denote the fields of \<open>agent\<close>, the
  fields of the other records are written qualified.
\<close>

type_synonym docid = nat

datatype clapType = Started | Stopped

record xVerificationChallenge =
  docId :: docid
  agentId :: docid
  xHandle :: string
  challengeText :: string
  createdAt :: real
  expiresAt :: real
  completedAt :: "real option"
  matchedPostUrl :: "string option"

record clapEvent =
  docId :: docid
  agentId :: docid
  agentName :: string
  type :: clapType
  createdAt :: real

text \<open>The object returned by \<open>getAgentById\<close>.\<close>

record agentView =
  docId :: docid
  name :: string
  xHandle :: "string option"
  xVerified :: bool
  isClapping :: bool
  clapPct :: real
  createdAt :: real
  lastHeartbeatAt :: real

text \<open>One element of \<open>items\<close> in the result of \<open>listAgents\<close>.\<close>

record agentItem =
  docId :: docid
  name :: string
  xHandle :: "string option"
  xVerified :: bool
  isClapping :: bool
  createdAt :: real
  clapPct :: real

text \<open>The values returned by the mutations.\<close>

record changeResult =
  ok :: bool
  changed :: bool

record createResult =
  challengeId :: docid
  challengeText :: string
  xHandle :: string
  expiresAt :: real

record completeResult =
  ok :: bool
  agentId :: docid
  xHandle :: string

text \<open>One point of the series returned by \<open>getClapRateHistory\<close>.\<close>

record point =
  ts :: real
  clappingNow :: int
  pct :: real

record agent =
  docId :: docid
  publicId :: "string option"
  name :: string
  xHandle :: "string option"
  xVerified :: bool
  isClapping :: bool
  cumulativeClapMs :: real
  lastStateChangedAt :: real
  lastHeartbeatAt :: real
  createdAt :: real
  updatedAt :: real

text \<open>\<open>{ ...a, clapPct: computeAgentPct(a, now) }\<close> in \<open>getCurrentStats\<close>.\<close>

record agentWithPct = agent +
  clapPct :: real

text \<open>
  The state of the database: the three tables, and the counter from which \<open>insert\<close>
  draws the id of a new document.
\<close>

record db =
  agents :: "agent list"
  clapEvents :: "clapEvent list"
  xVerificationChallenges :: "xVerificationChallenge list"
  nextId :: docid

section \<open>Percentage computation (convex/clapApi.ts)\<close>

definition clampPct :: "real \<Rightarrow> real" where
  "clampPct value = max 0 (min 100 value)"

text \<open>
  The two local constants of \<open>computeAgentPct\<close>, which the reducer of \<open>groupPct\<close>
  computes again with the same expressions.
\<close>

definition elapsed :: "'a agent_scheme \<Rightarrow> real \<Rightarrow> real" where
  "elapsed agent now = max 1 (now - createdAt agent)"

definition liveClapMs :: "'a agent_scheme \<Rightarrow> real \<Rightarrow> real" where
  "liveClapMs agent now =
     (if isClapping agent then max 0 (now - lastStateChangedAt agent) else 0)"

definition computeAgentPct :: "'a agent_scheme \<Rightarrow> real \<Rightarrow> real" where
  "computeAgentPct agent now =
     clampPct (((cumulativeClapMs agent + liveClapMs agent now) / elapsed agent now) * 100)"

subsection \<open>Reading a document\<close>

text \<open>\<open>ctx.db.get(id)\<close>: the document of the table with that id, or \<open>null\<close>.\<close>

definition db_get :: "('d \<Rightarrow> docid) \<Rightarrow> 'd list \<Rightarrow> docid \<Rightarrow> 'd option" where
  "db_get idOf table i = find (\<lambda>d. idOf d = i) table"

subsection \<open>getAgentById\<close>

definition getAgentById :: "db \<Rightarrow> docid \<Rightarrow> real \<Rightarrow> agentView option" where
  "getAgentById d aid now =
     (case db_get agent.docId (agents d) aid of
        None \<Rightarrow> None
      | Some agent \<Rightarrow> Some \<lparr>
          agentView.docId = agent.docId agent,
          name = name agent,
          xHandle = xHandle agent,
          xVerified = xVerified agent,
          isClapping = isClapping agent,
          clapPct = computeAgentPct agent now,
          createdAt = createdAt agent,
          lastHeartbeatAt = lastHeartbeatAt agent \<rparr>)"

subsection \<open>listAgents\<close>

datatype sortOrder = Newest | Oldest | Highest_clap | Lowest_clap

record listArgs =
  sort :: "sortOrder option"
  page :: "real option"
  pageSize :: "real option"
  verifiedOnly :: "bool option"

record listResult =
  page :: real
  pageSize :: real
  total :: nat
  totalPages :: int
  items :: "agentItem list"

text \<open>
  \<open>Array.prototype.slice(start, end)\<close>: both arguments are truncated towards zero, a
  negative one counts from the end, and the range is cut to the array.
\<close>

definition toIntegerOrInfinity :: "real \<Rightarrow> int" where
  "toIntegerOrInfinity x = (if x < 0 then \<lceil>x\<rceil> else \<lfloor>x\<rfloor>)"

definition relativeIndex :: "nat \<Rightarrow> real \<Rightarrow> nat" where
  "relativeIndex len x =
     (let r = toIntegerOrInfinity x
      in if r < 0 then nat (max (int len + r) 0) else min (nat r) len)"

definition slice :: "'a list \<Rightarrow> real \<Rightarrow> real \<Rightarrow> 'a list" where
  "slice xs start end =
     (let k = relativeIndex (length xs) start;
          final = relativeIndex (length xs) end
      in take (final - k) (drop k xs))"

definition toItem :: "agent \<Rightarrow> real \<Rightarrow> agentItem" where
  "toItem a now = \<lparr>
     agentItem.docId = agent.docId a,
     name = name a,
     xHandle = xHandle a,
     xVerified = xVerified a,
     isClapping = isClapping a,
     createdAt = createdAt a,
     clapPct = computeAgentPct a now \<rparr>"

text \<open>
  \<open>Array.prototype.sort\<close> is stable, and each of the four comparators is the difference
  of one numeric key, so the sort is a stable sort by that key: ascending for \<open>a - b\<close>,
  descending (the key negated) for \<open>b - a\<close>.
\<close>

definition sortItems :: "sortOrder \<Rightarrow> agentItem list \<Rightarrow> agentItem list" where
  "sortItems s xs =
     (if s = Oldest then sort_key agentItem.createdAt xs
      else if s = Highest_clap then sort_key (\<lambda>a. - agentItem.clapPct a) xs
      else if s = Lowest_clap then sort_key agentItem.clapPct xs
      else sort_key (\<lambda>a. - agentItem.createdAt a) xs)"

definition listAgents :: "db \<Rightarrow> listArgs \<Rightarrow> real \<Rightarrow> listResult" where
  "listAgents d args now =
     (let page = max 1 (case listArgs.page args of None \<Rightarrow> 1 | Some p \<Rightarrow> p);
          pageSize = min 100 (max 1 (case listArgs.pageSize args of None \<Rightarrow> 24 | Some p \<Rightarrow> p));
          sort = (case sort args of None \<Rightarrow> Newest | Some s \<Rightarrow> s);
          verifiedOnly = (case verifiedOnly args of None \<Rightarrow> False | Some b \<Rightarrow> b);
          normalized = sortItems sort
            (map (\<lambda>a. toItem a now)
               (filter (\<lambda>a. if verifiedOnly then xVerified a else True) (agents d)));
          total = length normalized;
          start = (page - 1) * pageSize;
          items = slice normalized start (start + pageSize)
      in \<lparr> page = page,
           pageSize = pageSize,
           total = total,
           totalPages = max 1 \<lceil>real total / pageSize\<rceil>,
           items = items \<rparr>)"

subsection \<open>getCurrentStats\<close>

record totals =
  t_elapsed :: real
  t_clap :: real

record currentStats =
  totalAgents :: nat
  totalAgentsVerified :: nat
  totalAgentsUnverified :: nat
  clappingNow :: nat
  clappingNowVerified :: nat
  clappingNowUnverified :: nat
  currentClappingPct :: real
  currentClappingPctVerified :: real
  currentClappingPctUnverified :: real
  lifetimeClappingPctOverall :: real
  lifetimeClappingPctVerified :: real
  lifetimeClappingPctUnverified :: real

definition withPct :: "agent list \<Rightarrow> real \<Rightarrow> agentWithPct list" where
  "withPct as now =
     map (\<lambda>a. agent.extend a (agentWithPct.fields (computeAgentPct a now))) as"

text \<open>
  The callback of \<open>subset.reduce\<close> in \<open>groupPct\<close>; the accumulator object
  \<open>{ elapsed, clap }\<close> is the record \<open>totals\<close>.
\<close>

definition reducer :: "real \<Rightarrow> totals \<Rightarrow> 'a agent_scheme \<Rightarrow> totals" where
  "reducer now acc agent =
     (let elapsed = max 1 (now - createdAt agent);
          liveClapMs = (if isClapping agent then max 0 (now - lastStateChangedAt agent) else 0)
      in \<lparr> t_elapsed = t_elapsed acc + elapsed,
           t_clap = t_clap acc + (cumulativeClapMs agent + liveClapMs) \<rparr>)"

definition groupPct :: "real \<Rightarrow> 'a agent_scheme list \<Rightarrow> real" where
  "groupPct now subset' =
     (if length subset' = 0 then 0
      else let totals = foldl (reducer now) \<lparr> t_elapsed = 0, t_clap = 0 \<rparr> subset'
           in clampPct ((t_clap totals / max 1 (t_elapsed totals)) * 100))"

definition getCurrentStats :: "db \<Rightarrow> real \<Rightarrow> currentStats" where
  "getCurrentStats d now =
     (let agents = agents d;
          total = length agents;
          clappingNow = length (filter isClapping agents);
          withPct = withPct agents now;
          verified = filter xVerified withPct;
          unverified = filter (\<lambda>a. \<not> xVerified a) withPct;
          clappingNowVerified = length (filter isClapping verified);
          clappingNowUnverified = length (filter isClapping unverified)
      in \<lparr> totalAgents = total,
           totalAgentsVerified = length verified,
           totalAgentsUnverified = length unverified,
           clappingNow = clappingNow,
           clappingNowVerified = clappingNowVerified,
           clappingNowUnverified = clappingNowUnverified,
           currentClappingPct =
             (if total \<noteq> 0 then (real clappingNow / real total) * 100 else 0),
           currentClappingPctVerified =
             (if length verified \<noteq> 0
              then (real clappingNowVerified / real (length verified)) * 100 else 0),
           currentClappingPctUnverified =
             (if length unverified \<noteq> 0
              then (real clappingNowUnverified / real (length unverified)) * 100 else 0),
           lifetimeClappingPctOverall = groupPct now withPct,
           lifetimeClappingPctVerified = groupPct now verified,
           lifetimeClappingPctUnverified = groupPct now unverified \<rparr>)"

section \<open>Mutations (convex/clapApi.ts)\<close>

subsection \<open>Writing documents, and transactions\<close>

datatype error =
    Agent_not_found
  | Challenge_not_found
  | Challenge_already_completed
  | Challenge_expired
  | Handle_already_linked
  | Nonexistent_document
  | Must_confirm_wipe

text \<open>
  \<open>ctx.db.patch(id, fields)\<close> overwrites the given fields of the document with that id;
  the overwriting is the function \<open>f\<close>. It throws when the table has no such document.
\<close>

fun db_patch :: "('d \<Rightarrow> docid) \<Rightarrow> docid \<Rightarrow> ('d \<Rightarrow> 'd) \<Rightarrow> 'd list \<Rightarrow> 'd list option" where
  "db_patch idOf i f [] = None"
| "db_patch idOf i f (x # xs) =
     (if idOf x = i then Some (f x # xs)
      else map_option ((#) x) (db_patch idOf i f xs))"

definition patchAgent :: "docid \<Rightarrow> (agent \<Rightarrow> agent) \<Rightarrow> db \<Rightarrow> error + db" where
  "patchAgent i f d =
     (case db_patch agent.docId i f (agents d) of
        None \<Rightarrow> Inl Nonexistent_document
      | Some as \<Rightarrow> Inr (d\<lparr>agents := as\<rparr>))"

definition patchChallenge ::
  "docid \<Rightarrow> (xVerificationChallenge \<Rightarrow> xVerificationChallenge) \<Rightarrow> db \<Rightarrow> error + db" where
  "patchChallenge i f d =
     (case db_patch xVerificationChallenge.docId i f (xVerificationChallenges d) of
        None \<Rightarrow> Inl Nonexistent_document
      | Some cs \<Rightarrow> Inr (d\<lparr>xVerificationChallenges := cs\<rparr>))"

text \<open>
  \<open>ctx.db.insert(table, fields)\<close> appends the document under a new id and returns the
  id; the fields are a function awaiting the id.
\<close>

definition insertAgent :: "(docid \<Rightarrow> agent) \<Rightarrow> db \<Rightarrow> docid \<times> db" where
  "insertAgent doc d =
     (nextId d, d\<lparr>agents := agents d @ [doc (nextId d)], nextId := Suc (nextId d)\<rparr>)"

definition insertClapEvent :: "(docid \<Rightarrow> clapEvent) \<Rightarrow> db \<Rightarrow> docid \<times> db" where
  "insertClapEvent doc d =
     (nextId d, d\<lparr>clapEvents := clapEvents d @ [doc (nextId d)], nextId := Suc (nextId d)\<rparr>)"

definition insertChallenge :: "(docid \<Rightarrow> xVerificationChallenge) \<Rightarrow> db \<Rightarrow> docid \<times> db" where
  "insertChallenge doc d =
     (nextId d,
      d\<lparr>xVerificationChallenges := xVerificationChallenges d @ [doc (nextId d)],
        nextId := Suc (nextId d)\<rparr>)"

text \<open>
  A handler takes the database and returns the database as its writes left it, with
  the value it returned (\<open>Inr\<close>) or the error it threw (\<open>Inl\<close>). A Convex mutation is a
  transaction: the writes of a handler that throws are discarded.
\<close>

definition mutation :: "(db \<Rightarrow> db \<times> (error + 'r)) \<Rightarrow> db \<Rightarrow> db \<times> (error + 'r)" where
  "mutation handler d =
     (case handler d of
        (d', Inl e) \<Rightarrow> (d, Inl e)
      | (d', Inr r) \<Rightarrow> (d', Inr r))"

subsection \<open>normalizeXHandle\<close>

text \<open>
  Strings are byte strings here: \<open>trim\<close> removes the ASCII white space (tab, line feed,
  vertical tab, form feed, carriage return, space) and \<open>toLowerCase\<close> maps the ASCII
  capitals; the white space and the capitals of Unicode beyond ASCII are not modelled.
\<close>

definition isWhiteSpace :: "char \<Rightarrow> bool" where
  "isWhiteSpace c = (of_char c \<in> {9, 10, 11, 12, 13, 32 :: nat})"

definition trim :: "string \<Rightarrow> string" where
  "trim s = rev (dropWhile isWhiteSpace (rev (dropWhile isWhiteSpace s)))"

definition toLowerCase :: "string \<Rightarrow> string" where
  "toLowerCase s =
     map (\<lambda>c. if 65 \<le> (of_char c :: nat) \<and> (of_char c :: nat) \<le> 90
              then char_of (of_char c + 32 :: nat) else c) s"

definition normalizeXHandle :: "string \<Rightarrow> string" where
  "normalizeXHandle raw =
     toLowerCase (case trim raw of [] \<Rightarrow> [] | c # cs \<Rightarrow> if c = CHR ''@'' then cs else c # cs)"

subsection \<open>registerAgent\<close>

definition registerAgent_handler ::
  "real \<Rightarrow> string \<Rightarrow> string option \<Rightarrow> db \<Rightarrow> db \<times> (error + docid)" where
  "registerAgent_handler now name' xHandle' d =
     (let (agentId, d1) = insertAgent (\<lambda>i. \<lparr>
            agent.docId = i,
            publicId = None,
            name = trim name',
            xHandle = (case xHandle' of
                         None \<Rightarrow> None
                       | Some h \<Rightarrow> if h = [] then None else Some (normalizeXHandle h)),
            xVerified = False,
            isClapping = False,
            cumulativeClapMs = 0,
            lastStateChangedAt = now,
            lastHeartbeatAt = now,
            createdAt = now,
            updatedAt = now \<rparr>) d
      in (d1, Inr agentId))"

definition registerAgent ::
  "real \<Rightarrow> string \<Rightarrow> string option \<Rightarrow> db \<Rightarrow> db \<times> (error + docid)" where
  "registerAgent now name' xHandle' = mutation (registerAgent_handler now name' xHandle')"

subsection \<open>setClappingState and heartbeat\<close>

definition setClappingState_handler ::
  "real \<Rightarrow> docid \<Rightarrow> bool \<Rightarrow> db \<Rightarrow> db \<times> (error + changeResult)" where
  "setClappingState_handler now agentId' clapping d =
     (case db_get agent.docId (agents d) agentId' of
        None \<Rightarrow> (d, Inl Agent_not_found)
      | Some agent \<Rightarrow>
          let cumulativeClapMs =
                (if isClapping agent \<and> \<not> clapping
                 then cumulativeClapMs agent + max 0 (now - lastStateChangedAt agent)
                 else cumulativeClapMs agent);
              changed = (isClapping agent \<noteq> clapping)
          in case patchAgent agentId' (\<lambda>a. a\<lparr>
                    isClapping := clapping,
                    cumulativeClapMs := cumulativeClapMs,
                    lastStateChangedAt := (if changed then now else lastStateChangedAt agent),
                    lastHeartbeatAt := now,
                    updatedAt := now \<rparr>) d of
               Inl e \<Rightarrow> (d, Inl e)
             | Inr d1 \<Rightarrow>
                 let d2 = (if changed
                           then snd (insertClapEvent (\<lambda>i. \<lparr>
                                  clapEvent.docId = i,
                                  agentId = agentId',
                                  agentName = name agent,
                                  type = (if clapping then Started else Stopped),
                                  createdAt = now \<rparr>) d1)
                           else d1)
                 in (d2, Inr \<lparr> changeResult.ok = True, changed = changed \<rparr>))"

definition setClappingState ::
  "real \<Rightarrow> docid \<Rightarrow> bool \<Rightarrow> db \<Rightarrow> db \<times> (error + changeResult)" where
  "setClappingState now agentId' clapping =
     mutation (setClappingState_handler now agentId' clapping)"

definition heartbeat_handler ::
  "real \<Rightarrow> docid \<Rightarrow> bool option \<Rightarrow> db \<Rightarrow> db \<times> (error + changeResult)" where
  "heartbeat_handler now agentId' clapping' d =
     (case db_get agent.docId (agents d) agentId' of
        None \<Rightarrow> (d, Inl Agent_not_found)
      | Some agent \<Rightarrow>
          (case clapping' of
             Some clapping \<Rightarrow>
               let cumulativeClapMs =
                     (if isClapping agent \<and> \<not> clapping
                      then cumulativeClapMs agent + max 0 (now - lastStateChangedAt agent)
                      else cumulativeClapMs agent);
                   changed = (isClapping agent \<noteq> clapping)
               in (case patchAgent agentId' (\<lambda>a. a\<lparr>
                         isClapping := clapping,
                         cumulativeClapMs := cumulativeClapMs,
                         lastStateChangedAt := (if changed then now else lastStateChangedAt agent),
                         lastHeartbeatAt := now,
                         updatedAt := now \<rparr>) d of
                    Inl e \<Rightarrow> (d, Inl e)
                  | Inr d1 \<Rightarrow>
                      let d2 = (if changed
                                then snd (insertClapEvent (\<lambda>i. \<lparr>
                                       clapEvent.docId = i,
                                       agentId = agentId',
                                       agentName = name agent,
                                       type = (if clapping then Started else Stopped),
                                       createdAt = now \<rparr>) d1)
                                else d1)
                      in (d2, Inr \<lparr> changeResult.ok = True, changed = changed \<rparr>))
           | None \<Rightarrow>
               (case patchAgent agentId' (\<lambda>a. a\<lparr> lastHeartbeatAt := now, updatedAt := now \<rparr>) d of
                  Inl e \<Rightarrow> (d, Inl e)
                | Inr d1 \<Rightarrow> (d1, Inr \<lparr> changeResult.ok = True, changed = False \<rparr>))))"

definition heartbeat ::
  "real \<Rightarrow> docid \<Rightarrow> bool option \<Rightarrow> db \<Rightarrow> db \<times> (error + changeResult)" where
  "heartbeat now agentId' clapping = mutation (heartbeat_handler now agentId' clapping)"

subsection \<open>X verification\<close>

text \<open>
  \<open>withIndex("by_x_verified")\<close> without a range reads the whole table in the order of
  the index: by \<open>xVerified\<close> (\<open>false\<close> before \<open>true\<close>), then by creation.
\<close>

definition by_x_verified :: "agent list \<Rightarrow> agent list" where
  "by_x_verified as = filter (\<lambda>a. \<not> xVerified a) as @ filter xVerified as"

text \<open>
  \<open>.filter(q.and(q.eq(xVerified, true), q.eq(xHandle, handle))).first()\<close> on that index.
\<close>

definition existingOwner :: "db \<Rightarrow> string \<Rightarrow> agent option" where
  "existingOwner d handle =
     find (\<lambda>a. xVerified a = True \<and> xHandle a = Some handle) (by_x_verified (agents d))"

text \<open>The truth value of a \<open>number | undefined\<close> in a condition: \<open>undefined\<close> and \<open>0\<close> are false.\<close>

definition truthy :: "real option \<Rightarrow> bool" where
  "truthy v = (case v of None \<Rightarrow> False | Some x \<Rightarrow> x \<noteq> 0)"

definition createXVerificationChallenge_handler ::
  "real \<Rightarrow> docid \<Rightarrow> string \<Rightarrow> string \<Rightarrow> real \<Rightarrow> db \<Rightarrow> db \<times> (error + createResult)" where
  "createXVerificationChallenge_handler now agentId' xHandle' challengeText' expiresAt' d =
     (case db_get agent.docId (agents d) agentId' of
        None \<Rightarrow> (d, Inl Agent_not_found)
      | Some agent \<Rightarrow>
          let normalizedHandle = normalizeXHandle xHandle'
          in if (case existingOwner d normalizedHandle of
                   None \<Rightarrow> False
                 | Some owner \<Rightarrow> agent.docId owner \<noteq> agentId')
             then (d, Inl Handle_already_linked)
             else
               let (challengeId, d1) = insertChallenge (\<lambda>i. \<lparr>
                     xVerificationChallenge.docId = i,
                     agentId = agentId',
                     xHandle = normalizedHandle,
                     challengeText = challengeText',
                     createdAt = now,
                     expiresAt = expiresAt',
                     completedAt = None,
                     matchedPostUrl = None \<rparr>) d
               in case patchAgent agentId'
                         (\<lambda>a. a\<lparr> xHandle := Some normalizedHandle, updatedAt := now \<rparr>) d1 of
                    Inl e \<Rightarrow> (d1, Inl e)
                  | Inr d2 \<Rightarrow>
                      (d2, Inr \<lparr> challengeId = challengeId,
                                 challengeText = challengeText',
                                 xHandle = normalizedHandle,
                                 expiresAt = expiresAt' \<rparr>))"

definition createXVerificationChallenge ::
  "real \<Rightarrow> docid \<Rightarrow> string \<Rightarrow> string \<Rightarrow> real \<Rightarrow> db \<Rightarrow> db \<times> (error + createResult)" where
  "createXVerificationChallenge now agentId' xHandle' challengeText' expiresAt' =
     mutation (createXVerificationChallenge_handler now agentId' xHandle' challengeText' expiresAt')"

definition completeXVerificationChallenge_handler ::
  "real \<Rightarrow> docid \<Rightarrow> string option \<Rightarrow> db \<Rightarrow> db \<times> (error + completeResult)" where
  "completeXVerificationChallenge_handler now challengeId' matchedPostUrl' d =
     (case db_get xVerificationChallenge.docId (xVerificationChallenges d) challengeId' of
        None \<Rightarrow> (d, Inl Challenge_not_found)
      | Some challenge \<Rightarrow>
          if truthy (completedAt challenge) then (d, Inl Challenge_already_completed)
          else if xVerificationChallenge.expiresAt challenge < now then (d, Inl Challenge_expired)
          else if (case existingOwner d (xVerificationChallenge.xHandle challenge) of
                     None \<Rightarrow> False
                   | Some owner \<Rightarrow>
                       agent.docId owner \<noteq> xVerificationChallenge.agentId challenge)
          then (d, Inl Handle_already_linked)
          else
            case patchChallenge (xVerificationChallenge.docId challenge)
                   (\<lambda>c. c\<lparr> completedAt := Some now, matchedPostUrl := matchedPostUrl' \<rparr>) d of
              Inl e \<Rightarrow> (d, Inl e)
            | Inr d1 \<Rightarrow>
                (case patchAgent (xVerificationChallenge.agentId challenge)
                        (\<lambda>a. a\<lparr> xHandle := Some (xVerificationChallenge.xHandle challenge),
                                 xVerified := True,
                                 updatedAt := now \<rparr>) d1 of
                   Inl e \<Rightarrow> (d1, Inl e)
                 | Inr d2 \<Rightarrow>
                     (d2, Inr \<lparr> ok = True,
                                agentId = xVerificationChallenge.agentId challenge,
                                xHandle = xVerificationChallenge.xHandle challenge \<rparr>)))"

definition completeXVerificationChallenge ::
  "real \<Rightarrow> docid \<Rightarrow> string option \<Rightarrow> db \<Rightarrow> db \<times> (error + completeResult)" where
  "completeXVerificationChallenge now challengeId' matchedPostUrl' =
     mutation (completeXVerificationChallenge_handler now challengeId' matchedPostUrl')"

subsection \<open>One call of a mutation\<close>

text \<open>
  The mutations that register an agent, change its clapping state or verify its handle,
  as one type of calls; \<open>exec\<close> is the database after the call at time \<open>now\<close>.
\<close>

datatype call =
    RegisterAgent string "string option"
  | SetClappingState docid bool
  | Heartbeat docid "bool option"
  | CreateXVerificationChallenge docid string string real
  | CompleteXVerificationChallenge docid "string option"

fun exec :: "real \<Rightarrow> call \<Rightarrow> db \<Rightarrow> db" where
  "exec now (RegisterAgent n h) d = fst (registerAgent now n h d)"
| "exec now (SetClappingState i b) d = fst (setClappingState now i b d)"
| "exec now (Heartbeat i b) d = fst (heartbeat now i b d)"
| "exec now (CreateXVerificationChallenge i h t e) d =
     fst (createXVerificationChallenge now i h t e d)"
| "exec now (CompleteXVerificationChallenge i u) d =
     fst (completeXVerificationChallenge now i u d)"

subsection \<open>Deletion by the administrator\<close>

text \<open>\<open>ctx.db.delete(id)\<close> removes the document with that id from the table.\<close>

definition db_delete :: "('d \<Rightarrow> docid) \<Rightarrow> docid \<Rightarrow> 'd list \<Rightarrow> 'd list" where
  "db_delete idOf i table = filter (\<lambda>x. idOf x \<noteq> i) table"

text \<open>
  \<open>for (const x of docs) { if (unwanted(x)) await ctx.db.delete(x._id) }\<close> on a table.
\<close>

definition deleteLoop :: "('d \<Rightarrow> docid) \<Rightarrow> ('d \<Rightarrow> bool) \<Rightarrow> 'd list \<Rightarrow> 'd list \<Rightarrow> 'd list" where
  "deleteLoop idOf unwanted docs table =
     foldl (\<lambda>t x. if unwanted x then db_delete idOf (idOf x) t else t) table docs"

record deleteButResult =
  ok :: bool
  kept :: int
  deleted :: nat

record wipeResult =
  ok :: bool
  deleted_agents :: nat
  deleted_events :: nat
  deleted_challenges :: nat

definition deleteAllButNAgents_handler :: "real \<Rightarrow> db \<Rightarrow> db \<times> (error + deleteButResult)" where
  "deleteAllButNAgents_handler keep d =
     (let k = max 0 \<lfloor>keep\<rfloor>;
          agents = sort_key (\<lambda>a. - createdAt a) (agents d);
          keepIds = set (map agent.docId (take (nat k) agents));
          d1 = d\<lparr> clapEvents :=
                 deleteLoop clapEvent.docId (\<lambda>e. clapEvent.agentId e \<notin> keepIds)
                   (clapEvents d) (clapEvents d) \<rparr>;
          d2 = d1\<lparr> xVerificationChallenges :=
                 deleteLoop xVerificationChallenge.docId
                   (\<lambda>c. xVerificationChallenge.agentId c \<notin> keepIds)
                   (xVerificationChallenges d1) (xVerificationChallenges d1) \<rparr>;
          d3 = d2\<lparr> agents :=
                 deleteLoop agent.docId (\<lambda>a. agent.docId a \<notin> keepIds) agents (db.agents d2) \<rparr>;
          deleted = length (filter (\<lambda>a. agent.docId a \<notin> keepIds) agents)
      in (d3, Inr \<lparr> deleteButResult.ok = True,
                     kept = min k (int (length agents)),
                     deleted = deleted \<rparr>))"

definition deleteAllButNAgents :: "real \<Rightarrow> db \<Rightarrow> db \<times> (error + deleteButResult)" where
  "deleteAllButNAgents keep = mutation (deleteAllButNAgents_handler keep)"

definition deleteAllAgentsAndData_handler :: "string \<Rightarrow> db \<Rightarrow> db \<times> (error + wipeResult)" where
  "deleteAllAgentsAndData_handler confirmWipe d =
     (if confirmWipe \<noteq> ''YES_DELETE_EVERYTHING'' then (d, Inl Must_confirm_wipe)
      else
        let events = clapEvents d;
            d1 = d\<lparr> clapEvents := deleteLoop clapEvent.docId (\<lambda>e. True) events (clapEvents d) \<rparr>;
            challenges = xVerificationChallenges d1;
            d2 = d1\<lparr> xVerificationChallenges :=
                   deleteLoop xVerificationChallenge.docId (\<lambda>c. True) challenges
                     (xVerificationChallenges d1) \<rparr>;
            agents = agents d2;
            d3 = d2\<lparr> agents := deleteLoop agent.docId (\<lambda>a. True) agents (db.agents d2) \<rparr>
        in (d3, Inr \<lparr> wipeResult.ok = True,
                       deleted_agents = length agents,
                       deleted_events = length events,
                       deleted_challenges = length challenges \<rparr>))"

definition deleteAllAgentsAndData :: "string \<Rightarrow> db \<Rightarrow> db \<times> (error + wipeResult)" where
  "deleteAllAgentsAndData confirmWipe = mutation (deleteAllAgentsAndData_handler confirmWipe)"

subsection \<open>Histories of calls\<close>

text \<open>
  Any mutation of the module as one call; \<open>run\<close> is the database after a list of calls,
  each with its time \<open>Date.now()\<close>, from the empty database.
\<close>

datatype anyCall =
    Call call
  | DeleteAllButNAgents real
  | DeleteAllAgentsAndData string

fun execAny :: "real \<Rightarrow> anyCall \<Rightarrow> db \<Rightarrow> db" where
  "execAny now (Call c) d = exec now c d"
| "execAny now (DeleteAllButNAgents keep) d = fst (deleteAllButNAgents keep d)"
| "execAny now (DeleteAllAgentsAndData confirmWipe) d = fst (deleteAllAgentsAndData confirmWipe d)"

definition emptyDb :: db where
  "emptyDb = \<lparr> agents = [], clapEvents = [], xVerificationChallenges = [], nextId = 0 \<rparr>"

definition run :: "(real \<times> anyCall) list \<Rightarrow> db" where
  "run cs = foldl (\<lambda>d (now, c). execAny now c d) emptyDb cs"

text \<open>The clock is after the epoch at every call: \<open>Date.now()\<close> is positive.\<close>

definition timesPositive :: "(real \<times> anyCall) list \<Rightarrow> bool" where
  "timesPositive cs = list_all (\<lambda>(now, c). 0 < now) cs"

text \<open>
  A database is well formed when the agent of every challenge exists and every
  \<open>completedAt\<close> is a positive time.
\<close>

definition wf_db :: "db \<Rightarrow> bool" where
  "wf_db d =
     (\<forall>c \<in> set (xVerificationChallenges d).
        db_get agent.docId (agents d) (xVerificationChallenge.agentId c) \<noteq> None
        \<and> (case completedAt c of None \<Rightarrow> True | Some t \<Rightarrow> 0 < t))"

section \<open>History reconstruction (getClapRateHistory)\<close>

datatype range = Hour | Day | Week | Month | All

record historyResult =
  range' :: range
  totalAgents :: nat
  points :: "point list"

definition windows :: "range \<Rightarrow> real" where
  "windows r =
     (case r of
        Hour \<Rightarrow> 60 * 60 * 1000
      | Day \<Rightarrow> 24 * 60 * 60 * 1000
      | Week \<Rightarrow> 7 * 24 * 60 * 60 * 1000
      | Month \<Rightarrow> 30 * 24 * 60 * 60 * 1000
      | All \<Rightarrow> 3650 * 24 * 60 * 60 * 1000)"

text \<open>
  \<open>withIndex("by_created_at").order("desc")\<close>: by \<open>createdAt\<close>, then by creation, both
  descending.
\<close>

definition by_created_at_desc :: "clapEvent list \<Rightarrow> clapEvent list" where
  "by_created_at_desc evs = rev (sort_key clapEvent.createdAt evs)"

text \<open>An event is in the lookback window when the filter of the query keeps it.\<close>

definition inWindow :: "range \<Rightarrow> real \<Rightarrow> clapEvent \<Rightarrow> bool" where
  "inWindow r now = (\<lambda>e. now - windows r \<le> clapEvent.createdAt e)"

text \<open>
  The events the loop replays: the 5000 first of the index, of which those in the window.
\<close>

definition filtered :: "db \<Rightarrow> range \<Rightarrow> real \<Rightarrow> clapEvent list" where
  "filtered d r now =
     (let lookbackMs = windows r;
          fromTs = now - lookbackMs;
          events = take 5000 (by_created_at_desc (clapEvents d))
      in filter (\<lambda>e. clapEvent.createdAt e \<ge> fromTs) events)"

definition mkPoint :: "nat \<Rightarrow> real \<Rightarrow> int \<Rightarrow> point" where
  "mkPoint totalAgents' t running =
     \<lparr> ts = t,
       clappingNow = running,
       pct = (if totalAgents' \<noteq> 0 then (real_of_int running / real totalAgents') * 100 else 0) \<rparr>"

text \<open>
  The body of the \<open>for\<close> loop on the pair of \<open>running\<close> and \<open>reversePoints\<close>.
\<close>

definition loopBody :: "nat \<Rightarrow> int \<times> point list \<Rightarrow> clapEvent \<Rightarrow> int \<times> point list" where
  "loopBody totalAgents' st e =
     (let running = fst st + (if type e = Started then - 1 else 1);
          running = max 0 (min (int totalAgents') running)
      in (running, snd st @ [mkPoint totalAgents' (clapEvent.createdAt e) running]))"

text \<open>The array \<open>points\<close>, before it is sampled.\<close>

definition historyPoints :: "db \<Rightarrow> range \<Rightarrow> real \<Rightarrow> point list" where
  "historyPoints d r now =
     (let totalAgents = length (agents d);
          agentsNow = agents d;
          currentClappingNow = length (filter isClapping agentsNow);
          running = int currentClappingNow;
          reversePoints =
            snd (foldl (loopBody totalAgents) (running, [mkPoint totalAgents now running])
                   (filtered d r now))
      in rev reversePoints)"

definition maxPoints :: "range \<Rightarrow> nat" where
  "maxPoints r = (if r = Hour then 120 else if r = Day then 200 else 260)"

definition sampled :: "range \<Rightarrow> point list \<Rightarrow> point list" where
  "sampled r ps =
     (let stride = max 1 \<lceil>real (length ps) / real (maxPoints r)\<rceil>
      in map snd
           (filter (\<lambda>(i, p). int i mod stride = 0 \<or> int i = int (length ps) - 1)
              (enumerate 0 ps)))"

definition getClapRateHistory :: "db \<Rightarrow> range \<Rightarrow> real \<Rightarrow> historyResult" where
  "getClapRateHistory d r now =
     \<lparr> range' = r,
       totalAgents = length (agents d),
       points = sampled r (historyPoints d r now) \<rparr>"

section \<open>The specification's formulas\<close>

text \<open>
  The definitions of this section follow the words of the specification; the theorems
  compare them with the functions above.
\<close>

definition spec_clamp :: "real \<Rightarrow> real" where
  "spec_clamp x = (if x < 0 then 0 else if 100 < x then 100 else x)"

definition spec_elapsed :: "'a agent_scheme \<Rightarrow> real \<Rightarrow> real" where
  "spec_elapsed a now = max 1 (now - createdAt a)"

definition spec_liveMs :: "'a agent_scheme \<Rightarrow> real \<Rightarrow> real" where
  "spec_liveMs a now = (if isClapping a then max 0 (now - lastStateChangedAt a) else 0)"

definition spec_pct :: "'a agent_scheme \<Rightarrow> real \<Rightarrow> real" where
  "spec_pct a now = spec_clamp ((cumulativeClapMs a + spec_liveMs a now) / spec_elapsed a now * 100)"

text \<open>Time-weighted pooling, and the arithmetic mean of the members' percentages.\<close>

definition spec_groupPct :: "real \<Rightarrow> 'a agent_scheme list \<Rightarrow> real" where
  "spec_groupPct now as =
     spec_clamp ((\<Sum>a\<leftarrow>as. cumulativeClapMs a + spec_liveMs a now)
                 / (\<Sum>a\<leftarrow>as. spec_elapsed a now) * 100)"

definition spec_meanPct :: "real \<Rightarrow> 'a agent_scheme list \<Rightarrow> real" where
  "spec_meanPct now as = (\<Sum>a\<leftarrow>as. spec_pct a now) / real (length as)"

text \<open>
  Walking the events backward in time from the running count: a \<open>started\<close> event
  decrements it, a \<open>stopped\<close> event increments it, clamped to \<open>[0, total]\<close>; each step
  gives the pair of the event's time and the count before that event.
\<close>

fun spec_walkBack :: "int \<Rightarrow> int \<Rightarrow> clapEvent list \<Rightarrow> (real \<times> int) list" where
  "spec_walkBack total' running [] = []"
| "spec_walkBack total' running (e # es) =
     (let r = max 0 (min total' (if type e = Started then running - 1 else running + 1))
      in (clapEvent.createdAt e, r) # spec_walkBack total' r es)"

definition spec_series :: "real \<Rightarrow> int \<Rightarrow> int \<Rightarrow> clapEvent list \<Rightarrow> (real \<times> int) list" where
  "spec_series now total' current evs = rev ((now, current) # spec_walkBack total' current evs)"

text \<open>
  What a clap-state-set or heartbeat-with-clapping call makes of the agent: when the new
  boolean differs from the stored flag, the elapsed clapping time is folded into the
  accumulator (only when leaving the clapping state), the flag is set and
  \<open>lastStateChangedAt\<close> is stamped; \<open>lastHeartbeatAt\<close> and \<open>updatedAt\<close> are always stamped.
  \<open>spec_event\<close> is the clap event of a transition.
\<close>

definition spec_setClapping :: "agent \<Rightarrow> bool \<Rightarrow> real \<Rightarrow> agent" where
  "spec_setClapping a b now =
     (if b \<noteq> isClapping a
      then a\<lparr> cumulativeClapMs :=
                (if isClapping a then cumulativeClapMs a + max 0 (now - lastStateChangedAt a)
                 else cumulativeClapMs a),
              isClapping := b,
              lastStateChangedAt := now,
              lastHeartbeatAt := now,
              updatedAt := now \<rparr>
      else a\<lparr> lastHeartbeatAt := now, updatedAt := now \<rparr>)"

definition spec_event :: "docid \<Rightarrow> agent \<Rightarrow> bool \<Rightarrow> real \<Rightarrow> clapEvent" where
  "spec_event i a b now =
     \<lparr> clapEvent.docId = i, agentId = agent.docId a, agentName = name a,
       type = (if b then Started else Stopped), createdAt = now \<rparr>"

text \<open>
  An agent is a verified owner of a handle when it is in the table, verified, and bound to
  the handle. A handle is bound to at most one verified agent when any two verified
  agents with the same handle have the same id.
\<close>

definition verifiedOwner :: "db \<Rightarrow> string \<Rightarrow> agent \<Rightarrow> bool" where
  "verifiedOwner d h a = (a \<in> set (agents d) \<and> xVerified a \<and> xHandle a = Some h)"

definition atMostOneOwner :: "db \<Rightarrow> bool" where
  "atMostOneOwner d =
     (\<forall>a \<in> set (agents d). \<forall>b \<in> set (agents d).
        xVerified a \<and> xVerified b \<and> xHandle a \<noteq> None \<and> xHandle a = xHandle b
        \<longrightarrow> agent.docId a = agent.docId b)"

section \<open>Auxiliary definitions\<close>

text \<open>
  The fields that \<open>setClappingState\<close> and \<open>heartbeat\<close> pass to \<open>patch\<close>, computed from
  the agent \<open>a\<close> that was read, as a function on the stored document.
\<close>

definition patched :: "agent \<Rightarrow> bool \<Rightarrow> real \<Rightarrow> agent \<Rightarrow> agent" where
  "patched a b now x = x\<lparr>
     isClapping := b,
     cumulativeClapMs :=
       (if isClapping a \<and> \<not> b
        then cumulativeClapMs a + max 0 (now - lastStateChangedAt a)
        else cumulativeClapMs a),
     lastStateChangedAt := (if isClapping a \<noteq> b then now else lastStateChangedAt a),
     lastHeartbeatAt := now,
     updatedAt := now \<rparr>"

text \<open>
  The boolean that a call writes to the clapping flag of the agent \<open>i\<close>, when it is a
  \<open>setClappingState\<close> or a \<open>heartbeat\<close> with a boolean for that agent.
\<close>

fun clapArg :: "call \<Rightarrow> docid \<Rightarrow> bool option" where
  "clapArg (SetClappingState j b) i = (if j = i then Some b else None)"
| "clapArg (Heartbeat j (Some b)) i = (if j = i then Some b else None)"
| "clapArg c i = None"

text \<open>
  The challenge that \<open>createXVerificationChallenge\<close> inserts, and the database with one
  more challenge.
\<close>

definition newChallenge ::
  "real \<Rightarrow> docid \<Rightarrow> string \<Rightarrow> string \<Rightarrow> real \<Rightarrow> docid \<Rightarrow> xVerificationChallenge" where
  "newChallenge now j h t e i =
     \<lparr> xVerificationChallenge.docId = i, agentId = j, xHandle = h, challengeText = t,
       createdAt = now, expiresAt = e, completedAt = None, matchedPostUrl = None \<rparr>"

definition withChallenge :: "xVerificationChallenge \<Rightarrow> db \<Rightarrow> db" where
  "withChallenge ch d =
     d\<lparr> xVerificationChallenges := xVerificationChallenges d @ [ch], nextId := Suc (nextId d) \<rparr>"

section \<open>Example states\<close>

text \<open>
  Two agents of different ages and clap states, observed at time 100: \<open>agentA\<close> was
  created at 0, has been clapping since and is the verified owner of the handle \<open>jeb\<close>;
  \<open>agentB\<close> was created at 50, never clapped and is not verified.
\<close>

definition agentA :: agent where
  "agentA = \<lparr> agent.docId = 0, publicId = None, name = ''a'', xHandle = Some ''jeb'',
     xVerified = True, isClapping = True, cumulativeClapMs = 0, lastStateChangedAt = 0,
     lastHeartbeatAt = 0, createdAt = 0, updatedAt = 0 \<rparr>"

definition agentB :: agent where
  "agentB = \<lparr> agent.docId = 1, publicId = None, name = ''b'', xHandle = None,
     xVerified = False, isClapping = False, cumulativeClapMs = 0, lastStateChangedAt = 50,
     lastHeartbeatAt = 50, createdAt = 50, updatedAt = 50 \<rparr>"

definition dbAB :: db where
  "dbAB = \<lparr> agents = [agentA, agentB], clapEvents = [], xVerificationChallenges = [],
     nextId = 2 \<rparr>"

text \<open>
  An agent that has been clapping since time 100, with 40 ms accumulated before.
\<close>

definition agentC :: agent where
  "agentC = \<lparr> agent.docId = 0, publicId = None, name = ''c'', xHandle = None,
     xVerified = False, isClapping = True, cumulativeClapMs = 40, lastStateChangedAt = 100,
     lastHeartbeatAt = 100, createdAt = 10, updatedAt = 100 \<rparr>"

definition dbC :: db where
  "dbC = \<lparr> agents = [agentC], clapEvents = [], xVerificationChallenges = [], nextId = 1 \<rparr>"

definition noArgs :: listArgs where
  "noArgs = \<lparr> sort = None, page = None, pageSize = None, verifiedOnly = None \<rparr>"

text \<open>
  A database with \<open>n\<close> \<open>started\<close> events, at the times \<open>0, 1, ..., n - 1\<close>; and a database
  of ten agents, five of them clapping, with one \<open>started\<close> event at time 1000, which is
  one hour before the time 3601000.
\<close>

definition ev :: "nat \<Rightarrow> clapEvent" where
  "ev k = \<lparr> clapEvent.docId = 100 + k, agentId = 0, agentName = ''a'', type = Started,
     createdAt = real k \<rparr>"

definition dbMany :: "nat \<Rightarrow> db" where
  "dbMany n = \<lparr> agents = [agentA, agentB], clapEvents = map ev [0..<n],
     xVerificationChallenges = [], nextId = 100 + n \<rparr>"

definition db10 :: db where
  "db10 = \<lparr> agents = map (\<lambda>k. agentB\<lparr> agent.docId := k, isClapping := (k < 5) \<rparr>) [0..<10],
     clapEvents = [\<lparr> clapEvent.docId = 10, agentId = 0, agentName = ''b'', type = Started,
                    createdAt = 1000 \<rparr>],
     xVerificationChallenges = [], nextId = 11 \<rparr>"

text \<open>
  A history of calls: \<open>alice\<close> and \<open>bob\<close> register; \<open>alice\<close> starts a challenge for the
  handle \<open>jeb\<close>, \<open>bob\<close> starts two for the same handle, of which the first expires at
  time 7; \<open>alice\<close> completes hers and is verified; \<open>bob\<close> starts a challenge for the handle
  \<open>bob\<close>. \<open>dbS\<close> is the database after these calls.
\<close>

definition scenario :: "(real \<times> anyCall) list" where
  "scenario =
     [(1, Call (RegisterAgent ''alice'' (Some ''@jeb''))),
      (2, Call (RegisterAgent ''bob'' None)),
      (3, Call (CreateXVerificationChallenge 0 ''jeb'' ''claim A'' 1000)),
      (4, Call (CreateXVerificationChallenge 1 ''jeb'' ''claim B'' 7)),
      (5, Call (CreateXVerificationChallenge 1 ''jeb'' ''claim B'' 1000)),
      (6, Call (CompleteXVerificationChallenge 2 None)),
      (7, Call (CreateXVerificationChallenge 1 ''bob'' ''claim bob'' 1000))]"

definition alice :: agent where
  "alice = \<lparr> agent.docId = 0, publicId = None, name = ''alice'', xHandle = Some ''jeb'',
     xVerified = True, isClapping = False, cumulativeClapMs = 0, lastStateChangedAt = 1,
     lastHeartbeatAt = 1, createdAt = 1, updatedAt = 6 \<rparr>"

definition bob :: agent where
  "bob = \<lparr> agent.docId = 1, publicId = None, name = ''bob'', xHandle = Some ''bob'',
     xVerified = False, isClapping = False, cumulativeClapMs = 0, lastStateChangedAt = 2,
     lastHeartbeatAt = 2, createdAt = 2, updatedAt = 7 \<rparr>"

definition chDone :: xVerificationChallenge where
  "chDone = (newChallenge 3 0 ''jeb'' ''claim A'' 1000 2)\<lparr> completedAt := Some 6 \<rparr>"

definition chLate :: xVerificationChallenge where
  "chLate = newChallenge 4 1 ''jeb'' ''claim B'' 7 3"

definition chJeb :: xVerificationChallenge where
  "chJeb = newChallenge 5 1 ''jeb'' ''claim B'' 1000 4"

definition chBob :: xVerificationChallenge where
  "chBob = newChallenge 7 1 ''bob'' ''claim bob'' 1000 5"

definition dbS :: db where
  "dbS = \<lparr> agents = [alice, bob], clapEvents = [],
     xVerificationChallenges = [chDone, chLate, chJeb, chBob], nextId = 6 \<rparr>"

section \<open>Percentages: proofs\<close>

lemma clampPct_spec: "clampPct x = spec_clamp x"
  by (simp add: clampPct_def spec_clamp_def max_def min_def)

lemma clampPct_range: "0 \<le> clampPct x \<and> clampPct x \<le> 100"
  by (simp add: clampPct_def)

lemma computeAgentPct_spec: "computeAgentPct a now = spec_pct a now"
  by (simp add: computeAgentPct_def spec_pct_def clampPct_spec elapsed_def liveClapMs_def
      spec_elapsed_def spec_liveMs_def)

lemma extend_fields [simp]:
  "createdAt (agent.extend a m) = createdAt a"
  "isClapping (agent.extend a m) = isClapping a"
  "xVerified (agent.extend a m) = xVerified a"
  "cumulativeClapMs (agent.extend a m) = cumulativeClapMs a"
  "lastStateChangedAt (agent.extend a m) = lastStateChangedAt a"
  by (simp_all add: agent.defs)

lemma withPct_clapPct:
  "map agentWithPct.clapPct (withPct as now) = map (\<lambda>a. computeAgentPct a now) as"
  by (simp add: withPct_def agent.defs agentWithPct.defs)

lemma set_slice: "set (slice xs s e) \<subseteq> set xs"
  by (metis slice_def set_take_subset set_drop_subset subset_trans)

lemma set_sortItems: "set (sortItems s xs) = set xs"
  by (simp add: sortItems_def)

lemma toItem_spec:
  "toItem a now = \<lparr> agentItem.docId = agent.docId a, name = name a, xHandle = xHandle a,
      xVerified = xVerified a, isClapping = isClapping a, createdAt = createdAt a,
      clapPct = spec_pct a now \<rparr>"
  by (simp add: toItem_def computeAgentPct_spec)

lemma items_listAgents:
  "set (items (listAgents d args now)) \<subseteq> (\<lambda>a. toItem a now) ` set (agents d)"
proof -
  have "set (items (listAgents d args now)) \<subseteq>
        set (map (\<lambda>a. toItem a now)
          (filter (\<lambda>a. if (case verifiedOnly args of None \<Rightarrow> False | Some b \<Rightarrow> b)
                        then xVerified a else True) (agents d)))"
    unfolding listAgents_def Let_def
    using set_slice set_sortItems by (metis listResult.select_convs(5))
  then show ?thesis by auto
qed

lemma getAgentById_clapPct:
  "map_option agentView.clapPct (getAgentById d i now) =
   map_option (\<lambda>a. spec_pct a now) (db_get agent.docId (agents d) i)"
  by (simp add: getAgentById_def computeAgentPct_spec split: option.split)

text \<open>
  C1. The percentage of an agent observed at \<open>now\<close> is the specification's formula:
  the clamp to \<open>[0, 100]\<close> of \<open>(cumulativeClapMs + liveMs) / elapsed * 100\<close> with
  \<open>elapsed = max(1, now - createdAt)\<close> and \<open>liveMs = max(0, now - lastStateChangedAt)\<close>
  for a clapping agent and 0 otherwise. This is the value of \<open>computeAgentPct\<close>, the
  \<open>clapPct\<close> of the agent returned by \<open>getAgentById\<close>, the \<open>clapPct\<close> of every item
  returned by \<open>listAgents\<close>, and the \<open>clapPct\<close> that \<open>getCurrentStats\<close> attaches to every
  agent.
\<close>

theorem agent_percentage_formula:
  "computeAgentPct a now = spec_pct a now
   \<and> map_option agentView.clapPct (getAgentById d i now) =
       map_option (\<lambda>a. spec_pct a now) (db_get agent.docId (agents d) i)
   \<and> (\<forall>it \<in> set (items (listAgents d args now)). \<exists>b \<in> set (agents d).
         it = \<lparr> agentItem.docId = agent.docId b, name = name b, xHandle = xHandle b,
                xVerified = xVerified b, isClapping = isClapping b, createdAt = createdAt b,
                clapPct = spec_pct b now \<rparr>)
   \<and> map agentWithPct.clapPct (withPct (agents d) now) = map (\<lambda>a. spec_pct a now) (agents d)"
proof (intro conjI)
  show "computeAgentPct a now = spec_pct a now"
    by (rule computeAgentPct_spec)
  show "map_option agentView.clapPct (getAgentById d i now) =
        map_option (\<lambda>a. spec_pct a now) (db_get agent.docId (agents d) i)"
    by (rule getAgentById_clapPct)
  show "\<forall>it \<in> set (items (listAgents d args now)). \<exists>b \<in> set (agents d).
         it = \<lparr> agentItem.docId = agent.docId b, name = name b, xHandle = xHandle b,
                xVerified = xVerified b, isClapping = isClapping b, createdAt = createdAt b,
                clapPct = spec_pct b now \<rparr>"
    using items_listAgents [of d args now] toItem_spec by blast
  show "map agentWithPct.clapPct (withPct (agents d) now) = map (\<lambda>a. spec_pct a now) (agents d)"
    by (simp add: withPct_clapPct computeAgentPct_spec)
qed

lemma normalized_dbAB:
  "map (\<lambda>a. toItem a 100) (agents dbAB) = [toItem agentA 100, toItem agentB 100]"
  by (simp add: dbAB_def)

lemma createdAt_itemA: "agentItem.createdAt (toItem agentA 100) = 0"
  by (simp add: toItem_def agentA_def)

lemma createdAt_itemB: "agentItem.createdAt (toItem agentB 100) = 50"
  by (simp add: toItem_def agentB_def)

lemma sortItems_dbAB:
  "sortItems Newest [toItem agentA 100, toItem agentB 100] = [toItem agentB 100, toItem agentA 100]"
  by (simp add: sortItems_def createdAt_itemA createdAt_itemB)

lemma slice_first_page: "slice [x, y] 0 24 = [x, y]"
  by (simp add: slice_def relativeIndex_def toIntegerOrInfinity_def)

lemma items_dbAB: "items (listAgents dbAB noArgs 100) = [toItem agentB 100, toItem agentA 100]"
  by (simp add: listAgents_def noArgs_def normalized_dbAB sortItems_dbAB slice_first_page)

theorem agent_percentage_formula_witness:
  "toItem agentB 100 \<in> set (items (listAgents dbAB noArgs 100))
   \<and> (\<exists>b \<in> set (agents dbAB).
        toItem agentB 100 =
          \<lparr> agentItem.docId = agent.docId b, name = name b, xHandle = xHandle b,
            xVerified = xVerified b, isClapping = isClapping b, createdAt = createdAt b,
            clapPct = spec_pct b 100 \<rparr>)"
proof -
  have mem: "toItem agentB 100 \<in> set (items (listAgents dbAB noArgs 100))"
    by (simp add: items_dbAB)
  from agent_percentage_formula [of agentA 100 dbAB 0 noArgs] mem show ?thesis
    by blast
qed

text \<open>
  C7. For every agent record and every time \<open>now\<close>, also one before \<open>createdAt\<close> or
  before \<open>lastStateChangedAt\<close>: the divisor \<open>elapsed\<close> of the percentage is at least 1,
  so never zero, and the percentage lies in \<open>[0, 100]\<close>. The same bounds hold for the
  divisor and the value of the pooled percentage of a cohort.
\<close>

theorem percentage_divisor_and_range:
  "1 \<le> elapsed a now
   \<and> elapsed a now \<noteq> 0
   \<and> computeAgentPct a now =
       clampPct (((cumulativeClapMs a + liveClapMs a now) / elapsed a now) * 100)
   \<and> 0 \<le> computeAgentPct a now \<and> computeAgentPct a now \<le> 100
   \<and> 1 \<le> max 1 (t_elapsed (foldl (reducer now) acc as))
   \<and> 0 \<le> groupPct now as \<and> groupPct now as \<le> 100"
proof -
  have e: "1 \<le> elapsed a now"
    by (simp add: elapsed_def)
  have g: "0 \<le> groupPct now as \<and> groupPct now as \<le> 100"
    using clampPct_range by (simp add: groupPct_def Let_def)
  show ?thesis
    using e g clampPct_range by (simp add: computeAgentPct_def)
qed

lemma foldl_reducer:
  "foldl (reducer now) acc as =
     \<lparr> t_elapsed = t_elapsed acc + (\<Sum>a\<leftarrow>as. spec_elapsed a now),
       t_clap = t_clap acc + (\<Sum>a\<leftarrow>as. cumulativeClapMs a + spec_liveMs a now) \<rparr>"
  by (induction as arbitrary: acc)
     (simp_all add: reducer_def spec_elapsed_def spec_liveMs_def Let_def add.assoc)

lemma sum_elapsed_ge: "real (length as) \<le> (\<Sum>a\<leftarrow>as. spec_elapsed a now)"
proof (induction as)
  case Nil
  show ?case by simp
next
  case (Cons a as)
  have "1 \<le> spec_elapsed a now" by (simp add: spec_elapsed_def)
  with Cons show ?case by simp
qed

lemma groupPct_spec:
  assumes "as \<noteq> []"
  shows "groupPct now as = spec_groupPct now as"
proof -
  have "1 \<le> real (length as)" using assms by (cases as) simp_all
  then have "1 \<le> (\<Sum>a\<leftarrow>as. spec_elapsed a now)"
    using sum_elapsed_ge [of as now] by linarith
  then show ?thesis
    using assms
    by (simp add: groupPct_def spec_groupPct_def foldl_reducer Let_def clampPct_spec max_def)
qed

lemma sums_withPct:
  "(\<Sum>a\<leftarrow>filter P (withPct as now).
      f (createdAt a) (isClapping a) (cumulativeClapMs a) (lastStateChangedAt a))
   = (\<Sum>a\<leftarrow>filter (\<lambda>a. P (agent.extend a (agentWithPct.fields (computeAgentPct a now)))) as.
      f (createdAt a) (isClapping a) (cumulativeClapMs a) (lastStateChangedAt a))"
  by (induction as) (simp_all add: withPct_def)

lemma spec_groupPct_withPct:
  "spec_groupPct now (filter P (withPct as now)) =
   spec_groupPct now
     (filter (\<lambda>a. P (agent.extend a (agentWithPct.fields (computeAgentPct a now)))) as)"
  unfolding spec_groupPct_def spec_elapsed_def spec_liveMs_def
  using sums_withPct [of "\<lambda>c i m l. m + (if i then max 0 (now - l) else 0)" P as now]
        sums_withPct [of "\<lambda>c i m l. max 1 (now - c)" P as now]
  by simp

lemma filter_withPct_empty:
  "(filter P (withPct as now) = []) =
   (filter (\<lambda>a. P (agent.extend a (agentWithPct.fields (computeAgentPct a now)))) as = [])"
  by (induction as) (simp_all add: withPct_def)

lemma cohort_pct:
  assumes "filter (\<lambda>a. P (agent.extend a (agentWithPct.fields (computeAgentPct a now)))) as \<noteq> []"
  shows "groupPct now (filter P (withPct as now)) =
         spec_groupPct now
           (filter (\<lambda>a. P (agent.extend a (agentWithPct.fields (computeAgentPct a now)))) as)"
proof -
  have "filter P (withPct as now) \<noteq> []"
    using assms by (simp add: filter_withPct_empty)
  then show ?thesis
    by (simp add: groupPct_spec spec_groupPct_withPct)
qed

lemma pooled_dbAB: "lifetimeClappingPctOverall (getCurrentStats dbAB 100) = 200 / 3"
  by (simp add: getCurrentStats_def Let_def dbAB_def agentA_def agentB_def withPct_def
      groupPct_def reducer_def clampPct_def)

lemma mean_dbAB: "spec_meanPct 100 (agents dbAB) = 50"
  by (simp add: spec_meanPct_def spec_pct_def spec_clamp_def spec_liveMs_def spec_elapsed_def
      dbAB_def agentA_def agentB_def)

text \<open>
  C2. For every non-empty cohort (all agents, the verified ones, the unverified ones) the
  lifetime percentage of \<open>getCurrentStats\<close> is the pooled one: the clamp to \<open>[0, 100]\<close> of
  the sum of the members' \<open>cumulativeClapMs + liveMs\<close>, divided by the sum of the members'
  \<open>max(1, now - createdAt)\<close>, times 100. For a cohort of two agents with different ages
  and clap states it differs from the arithmetic mean of the two members' percentages.
\<close>

theorem pooled_group_percentage:
  "(agents d \<noteq> [] \<longrightarrow>
      lifetimeClappingPctOverall (getCurrentStats d now) = spec_groupPct now (agents d))
   \<and> (filter xVerified (agents d) \<noteq> [] \<longrightarrow>
      lifetimeClappingPctVerified (getCurrentStats d now) =
        spec_groupPct now (filter xVerified (agents d)))
   \<and> (filter (\<lambda>a. \<not> xVerified a) (agents d) \<noteq> [] \<longrightarrow>
      lifetimeClappingPctUnverified (getCurrentStats d now) =
        spec_groupPct now (filter (\<lambda>a. \<not> xVerified a) (agents d)))
   \<and> (\<exists>a b t. createdAt a \<noteq> createdAt b \<and> isClapping a \<noteq> isClapping b
        \<and> lifetimeClappingPctOverall
             (getCurrentStats \<lparr> agents = [a, b], clapEvents = [],
                xVerificationChallenges = [], nextId = 2 \<rparr> t)
           \<noteq> spec_meanPct t [a, b])"
proof (intro conjI impI)
  assume "agents d \<noteq> []"
  then show "lifetimeClappingPctOverall (getCurrentStats d now) = spec_groupPct now (agents d)"
    using cohort_pct [of "\<lambda>a. True" now "agents d"]
    by (simp add: getCurrentStats_def Let_def)
next
  assume "filter xVerified (agents d) \<noteq> []"
  then show "lifetimeClappingPctVerified (getCurrentStats d now) =
        spec_groupPct now (filter xVerified (agents d))"
    using cohort_pct [of xVerified now "agents d"]
    by (simp add: getCurrentStats_def Let_def)
next
  assume "filter (\<lambda>a. \<not> xVerified a) (agents d) \<noteq> []"
  then show "lifetimeClappingPctUnverified (getCurrentStats d now) =
        spec_groupPct now (filter (\<lambda>a. \<not> xVerified a) (agents d))"
    using cohort_pct [of "\<lambda>a. \<not> xVerified a" now "agents d"]
    by (simp add: getCurrentStats_def Let_def)
next
  have "createdAt agentA \<noteq> createdAt agentB \<and> isClapping agentA \<noteq> isClapping agentB"
    by (simp add: agentA_def agentB_def)
  moreover have "lifetimeClappingPctOverall
             (getCurrentStats \<lparr> agents = [agentA, agentB], clapEvents = [],
                xVerificationChallenges = [], nextId = 2 \<rparr> 100)
           \<noteq> spec_meanPct 100 [agentA, agentB]"
    using pooled_dbAB mean_dbAB by (simp add: dbAB_def)
  ultimately show "\<exists>a b t. createdAt a \<noteq> createdAt b \<and> isClapping a \<noteq> isClapping b
        \<and> lifetimeClappingPctOverall
             (getCurrentStats \<lparr> agents = [a, b], clapEvents = [],
                xVerificationChallenges = [], nextId = 2 \<rparr> t)
           \<noteq> spec_meanPct t [a, b]"
    by blast
qed

theorem pooled_group_percentage_witness:
  "agents dbAB \<noteq> [] \<and> filter xVerified (agents dbAB) \<noteq> []
   \<and> filter (\<lambda>a. \<not> xVerified a) (agents dbAB) \<noteq> []
   \<and> lifetimeClappingPctOverall (getCurrentStats dbAB 100) = spec_groupPct 100 (agents dbAB)
   \<and> lifetimeClappingPctVerified (getCurrentStats dbAB 100) =
       spec_groupPct 100 (filter xVerified (agents dbAB))
   \<and> lifetimeClappingPctUnverified (getCurrentStats dbAB 100) =
       spec_groupPct 100 (filter (\<lambda>a. \<not> xVerified a) (agents dbAB))
   \<and> spec_groupPct 100 (agents dbAB) = 200 / 3"
proof -
  have ne: "agents dbAB \<noteq> []" "filter xVerified (agents dbAB) \<noteq> []"
    "filter (\<lambda>a. \<not> xVerified a) (agents dbAB) \<noteq> []"
    by (simp_all add: dbAB_def agentA_def agentB_def)
  with pooled_group_percentage [of dbAB 100] pooled_dbAB show ?thesis
    by simp
qed

section \<open>Mutations: proofs\<close>

lemma db_patch_None: "(db_patch idOf i f tbl = None) = (db_get idOf tbl i = None)"
  by (induction tbl) (simp_all add: db_get_def)

lemma db_patch_Some:
  "db_get idOf tbl i = Some a \<Longrightarrow> \<exists>tbl'. db_patch idOf i f tbl = Some tbl'"
  using db_patch_None [of idOf i f tbl] by (cases "db_patch idOf i f tbl") simp_all

lemma db_get_patch:
  assumes "\<And>x. idOf (f x) = idOf x"
  shows "db_patch idOf i f tbl = Some tbl' \<Longrightarrow>
         db_get idOf tbl' j = (if j = i then map_option f (db_get idOf tbl i) else db_get idOf tbl j)"
proof (induction tbl arbitrary: tbl')
  case Nil
  then show ?case by simp
next
  case (Cons x xs)
  show ?case
  proof (cases "idOf x = i")
    case True
    with Cons.prems have "tbl' = f x # xs" by simp
    with True assms show ?thesis by (simp add: db_get_def)
  next
    case False
    with Cons.prems obtain ys where ys: "db_patch idOf i f xs = Some ys" "tbl' = x # ys"
      by auto
    from Cons.IH [OF ys(1)] ys(2) False show ?thesis
      by (auto simp add: db_get_def)
  qed
qed

lemma db_patch_ids:
  assumes "\<And>x. idOf (f x) = idOf x"
  shows "db_patch idOf i f tbl = Some tbl' \<Longrightarrow> map idOf tbl' = map idOf tbl"
  using assms by (induction tbl arbitrary: tbl') (auto split: if_splits)

lemma db_get_append:
  "db_get idOf (tbl @ [x]) i =
     (case db_get idOf tbl i of Some a \<Rightarrow> Some a | None \<Rightarrow> if idOf x = i then Some x else None)"
  by (induction tbl) (simp_all add: db_get_def)

lemma db_get_id: "db_get idOf tbl i = Some a \<Longrightarrow> idOf a = i"
  by (induction tbl) (auto simp add: db_get_def split: if_splits)

lemma db_get_mem: "db_get idOf tbl i = Some a \<Longrightarrow> a \<in> set tbl"
  by (induction tbl) (auto simp add: db_get_def split: if_splits)

lemma mutation_Inr: "handler d = (d', Inr r) \<Longrightarrow> mutation handler d = (d', Inr r)"
  by (simp add: mutation_def)

lemma mutation_Inl: "handler d = (d', Inl e) \<Longrightarrow> mutation handler d = (d, Inl e)"
  by (simp add: mutation_def)

lemma heartbeat_handler_Some:
  "heartbeat_handler now i (Some b) d = setClappingState_handler now i b d"
  by (cases "db_get agent.docId (agents d) i")
     (simp_all add: heartbeat_handler_def setClappingState_handler_def)

lemma heartbeat_Some: "heartbeat now i (Some b) d = setClappingState now i b d"
  by (simp add: heartbeat_def setClappingState_def mutation_def heartbeat_handler_Some)

lemma patched_spec: "patched a b now a = spec_setClapping a b now"
  by (cases b; cases "isClapping a") (simp_all add: patched_def spec_setClapping_def)

lemma patched_id: "agent.docId (patched a b now x) = agent.docId x"
  by (simp add: patched_def)

lemma setClappingState_eq:
  assumes "db_get agent.docId (agents d) i = Some a"
  shows "\<exists>tbl'. db_patch agent.docId i (patched a b now) (agents d) = Some tbl'
         \<and> setClappingState now i b d =
           (if isClapping a \<noteq> b
            then d\<lparr>agents := tbl', clapEvents := clapEvents d @ [spec_event (nextId d) a b now],
                   nextId := Suc (nextId d)\<rparr>
            else d\<lparr>agents := tbl'\<rparr>,
            Inr \<lparr> changeResult.ok = True, changed = (isClapping a \<noteq> b) \<rparr>)"
proof -
  from db_patch_Some [OF assms] obtain tbl'
    where t: "db_patch agent.docId i (patched a b now) (agents d) = Some tbl'"
    by blast
  have i: "agent.docId a = i" using assms by (rule db_get_id)
  have "setClappingState_handler now i b d =
           (if isClapping a \<noteq> b
            then d\<lparr>agents := tbl', clapEvents := clapEvents d @ [spec_event (nextId d) a b now],
                   nextId := Suc (nextId d)\<rparr>
            else d\<lparr>agents := tbl'\<rparr>,
            Inr \<lparr> changeResult.ok = True, changed = (isClapping a \<noteq> b) \<rparr>)"
    using t assms i unfolding patched_def
    by (simp add: setClappingState_handler_def patchAgent_def insertClapEvent_def spec_event_def Let_def)
  then show ?thesis
    using t unfolding setClappingState_def by (simp add: mutation_Inr)
qed

lemma state_transition_aux:
  assumes "db_get agent.docId (agents d) i = Some a"
  shows "snd (setClappingState now i b d) =
           Inr \<lparr> changeResult.ok = True, changed = (isClapping a \<noteq> b) \<rparr>
       \<and> db_get agent.docId (agents (fst (setClappingState now i b d))) i =
           Some (spec_setClapping a b now)
       \<and> (\<forall>j. j \<noteq> i \<longrightarrow> db_get agent.docId (agents (fst (setClappingState now i b d))) j =
             db_get agent.docId (agents d) j)
       \<and> map agent.docId (agents (fst (setClappingState now i b d))) = map agent.docId (agents d)
       \<and> clapEvents (fst (setClappingState now i b d)) =
           clapEvents d @ (if isClapping a \<noteq> b then [spec_event (nextId d) a b now] else [])
       \<and> xVerificationChallenges (fst (setClappingState now i b d)) = xVerificationChallenges d
       \<and> nextId (fst (setClappingState now i b d)) =
           (if isClapping a \<noteq> b then Suc (nextId d) else nextId d)"
proof -
  from setClappingState_eq [OF assms, of b now] obtain tbl'
    where t: "db_patch agent.docId i (patched a b now) (agents d) = Some tbl'"
      and e: "setClappingState now i b d =
           (if isClapping a \<noteq> b
            then d\<lparr>agents := tbl', clapEvents := clapEvents d @ [spec_event (nextId d) a b now],
                   nextId := Suc (nextId d)\<rparr>
            else d\<lparr>agents := tbl'\<rparr>,
            Inr \<lparr> changeResult.ok = True, changed = (isClapping a \<noteq> b) \<rparr>)"
    by blast
  have g: "\<And>j. db_get agent.docId tbl' j =
       (if j = i then map_option (patched a b now) (db_get agent.docId (agents d) i)
        else db_get agent.docId (agents d) j)"
    using db_get_patch [OF patched_id t] by blast
  have ids: "map agent.docId tbl' = map agent.docId (agents d)"
    using db_patch_ids [OF patched_id t] .
  show ?thesis
    using e g ids assms by (simp add: patched_spec)
qed

lemma patchAgent_get:
  assumes "patchAgent j g d = Inr d1" and "\<And>x. agent.docId (g x) = agent.docId x"
  shows "db_get agent.docId (agents d1) i =
         (if i = j then map_option g (db_get agent.docId (agents d) j)
          else db_get agent.docId (agents d) i)"
proof -
  from assms(1) obtain tbl' where t: "db_patch agent.docId j g (agents d) = Some tbl'"
    and d1: "d1 = d\<lparr>agents := tbl'\<rparr>"
    by (auto simp add: patchAgent_def split: option.splits)
  show ?thesis
    using db_get_patch [of agent.docId g j "agents d" tbl' i, OF assms(2) t] d1 by simp
qed

lemma register_get:
  assumes "db_get agent.docId (agents d) i = Some a"
  shows "db_get agent.docId (agents (fst (registerAgent now n h d))) i = Some a"
  using assms
  by (simp add: registerAgent_def mutation_def registerAgent_handler_def insertAgent_def
      db_get_append)

lemma heartbeat_None_get:
  assumes "db_get agent.docId (agents d) i = Some a"
  shows "\<exists>a'. db_get agent.docId (agents (fst (heartbeat now j None d))) i = Some a'
          \<and> cumulativeClapMs a' = cumulativeClapMs a \<and> isClapping a' = isClapping a"
proof (cases "patchAgent j (\<lambda>a. a\<lparr> lastHeartbeatAt := now, updatedAt := now \<rparr>) d")
  case (Inl e)
  then have "fst (heartbeat now j None d) = d"
    by (simp add: heartbeat_def mutation_def heartbeat_handler_def split: option.splits)
  with assms show ?thesis by simp
next
  case (Inr d1)
  then have f: "fst (heartbeat now j None d) = d1 \<or> fst (heartbeat now j None d) = d"
    by (simp add: heartbeat_def mutation_def heartbeat_handler_def split: option.splits)
  have "db_get agent.docId (agents d1) i =
         (if i = j then map_option (\<lambda>a. a\<lparr> lastHeartbeatAt := now, updatedAt := now \<rparr>) (db_get agent.docId (agents d) j)
          else db_get agent.docId (agents d) i)"
    by (rule patchAgent_get [OF Inr]) simp
  with f assms show ?thesis by auto
qed

lemma create_get:
  assumes "db_get agent.docId (agents d) i = Some a"
  shows "\<exists>a'. db_get agent.docId (agents (fst (createXVerificationChallenge now j h t e d))) i = Some a'
          \<and> cumulativeClapMs a' = cumulativeClapMs a \<and> isClapping a' = isClapping a"
proof -
  let ?g = "\<lambda>a. a\<lparr> xHandle := Some (normalizeXHandle h), updatedAt := now \<rparr>"
  have "fst (createXVerificationChallenge now j h t e d) = d
      \<or> (\<exists>d1. agents d1 = agents d
            \<and> patchAgent j ?g d1 = Inr (fst (createXVerificationChallenge now j h t e d)))"
    by (auto simp add: createXVerificationChallenge_def mutation_def
        createXVerificationChallenge_handler_def insertChallenge_def Let_def
        split: option.splits sum.splits if_splits prod.splits)
  then show ?thesis
  proof
    assume "fst (createXVerificationChallenge now j h t e d) = d"
    with assms show ?thesis by simp
  next
    assume "\<exists>d1. agents d1 = agents d
            \<and> patchAgent j ?g d1 = Inr (fst (createXVerificationChallenge now j h t e d))"
    then obtain d1 where d1: "agents d1 = agents d"
      and p: "patchAgent j ?g d1 = Inr (fst (createXVerificationChallenge now j h t e d))"
      by blast
    have "db_get agent.docId (agents (fst (createXVerificationChallenge now j h t e d))) i =
         (if i = j then map_option ?g (db_get agent.docId (agents d1) j)
          else db_get agent.docId (agents d1) i)"
      by (rule patchAgent_get [OF p]) simp
    with d1 assms show ?thesis by auto
  qed
qed

lemma mutation_cases:
  "(\<exists>e. mutation h d = (d, Inl e)) \<or> (\<exists>r. h d = mutation h d \<and> snd (h d) = Inr r)"
  by (cases "h d"; cases "snd (h d)") (auto simp add: mutation_def)

lemma complete_handler_Inr:
  assumes "completeXVerificationChallenge_handler now c u d = (d', Inr r)"
  shows "\<exists>ch d1.
      db_get xVerificationChallenge.docId (xVerificationChallenges d) c = Some ch
    \<and> \<not> truthy (completedAt ch)
    \<and> \<not> xVerificationChallenge.expiresAt ch < now
    \<and> (case existingOwner d (xVerificationChallenge.xHandle ch) of
          None \<Rightarrow> True
        | Some owner \<Rightarrow> agent.docId owner = xVerificationChallenge.agentId ch)
    \<and> patchChallenge (xVerificationChallenge.docId ch)
         (\<lambda>c. c\<lparr> completedAt := Some now, matchedPostUrl := u \<rparr>) d = Inr d1
    \<and> patchAgent (xVerificationChallenge.agentId ch)
         (\<lambda>a. a\<lparr> xHandle := Some (xVerificationChallenge.xHandle ch), xVerified := True,
                  updatedAt := now \<rparr>) d1 = Inr d'
    \<and> r = \<lparr> completeResult.ok = True, agentId = xVerificationChallenge.agentId ch,
             xHandle = xVerificationChallenge.xHandle ch \<rparr>"
  using assms
  by (auto simp add: completeXVerificationChallenge_handler_def
      split: option.splits sum.splits if_splits)

lemma patchChallenge_agents: "patchChallenge i f d = Inr d1 \<Longrightarrow> agents d1 = agents d"
  by (auto simp add: patchChallenge_def split: option.splits)

lemma complete_get:
  assumes "db_get agent.docId (agents d) i = Some a"
  shows "\<exists>a'. db_get agent.docId (agents (fst (completeXVerificationChallenge now c u d))) i = Some a'
          \<and> cumulativeClapMs a' = cumulativeClapMs a \<and> isClapping a' = isClapping a"
proof -
  let ?h = "completeXVerificationChallenge_handler now c u"
  from mutation_cases [of ?h d] show ?thesis
  proof
    assume "\<exists>e. mutation ?h d = (d, Inl e)"
    then have "fst (completeXVerificationChallenge now c u d) = d"
      by (auto simp add: completeXVerificationChallenge_def)
    with assms show ?thesis by simp
  next
    assume "\<exists>r. ?h d = mutation ?h d \<and> snd (?h d) = Inr r"
    then obtain r where r: "?h d = (fst (completeXVerificationChallenge now c u d), Inr r)"
      by (metis completeXVerificationChallenge_def prod.collapse)
    from complete_handler_Inr [OF r] obtain ch :: xVerificationChallenge and d1 where
      pc: "patchChallenge (xVerificationChallenge.docId ch)
         (\<lambda>c. c\<lparr> completedAt := Some now, matchedPostUrl := u \<rparr>) d = Inr d1"
      and pa: "patchAgent (xVerificationChallenge.agentId ch)
         (\<lambda>a. a\<lparr> xHandle := Some (xVerificationChallenge.xHandle ch), xVerified := True,
                  updatedAt := now \<rparr>) d1 = Inr (fst (completeXVerificationChallenge now c u d))"
      by auto
    have "db_get agent.docId (agents (fst (completeXVerificationChallenge now c u d))) i =
         (if i = xVerificationChallenge.agentId ch
          then map_option (\<lambda>a. a\<lparr> xHandle := Some (xVerificationChallenge.xHandle ch),
                  xVerified := True, updatedAt := now \<rparr>)
                 (db_get agent.docId (agents d1) (xVerificationChallenge.agentId ch))
          else db_get agent.docId (agents d1) i)"
      by (rule patchAgent_get [OF pa]) simp
    with patchChallenge_agents [OF pc] assms show ?thesis by auto
  qed
qed

lemma set_get_exact:
  assumes "db_get agent.docId (agents d) i = Some a"
  shows "\<exists>a'. db_get agent.docId (agents (fst (setClappingState now j b d))) i = Some a'
          \<and> cumulativeClapMs a' =
              (if j = i \<and> isClapping a \<and> \<not> b
               then cumulativeClapMs a + max 0 (now - lastStateChangedAt a)
               else cumulativeClapMs a)
          \<and> isClapping a' = (if j = i then b else isClapping a)"
proof (cases "db_get agent.docId (agents d) j")
  case None
  then have "fst (setClappingState now j b d) = d"
    by (simp add: setClappingState_def mutation_def setClappingState_handler_def)
  moreover from None assms have "j \<noteq> i" by auto
  ultimately show ?thesis using assms by simp
next
  case (Some aj)
  show ?thesis
  proof (cases "j = i")
    case True
    with Some assms have "aj = a" by simp
    with state_transition_aux [OF Some, of now b] True show ?thesis
      by (auto simp add: spec_setClapping_def)
  next
    case False
    with state_transition_aux [OF Some, of now b] assms show ?thesis
      by simp
  qed
qed

lemma exec_exact:
  assumes "db_get agent.docId (agents d) i = Some a"
  shows "\<exists>a'. db_get agent.docId (agents (exec now c d)) i = Some a'
          \<and> cumulativeClapMs a' =
              (if isClapping a \<and> clapArg c i = Some False
               then cumulativeClapMs a + max 0 (now - lastStateChangedAt a)
               else cumulativeClapMs a)
          \<and> isClapping a' = (case clapArg c i of None \<Rightarrow> isClapping a | Some b \<Rightarrow> b)"
proof (cases c)
  case (RegisterAgent n h)
  with register_get [OF assms] show ?thesis by simp
next
  case (SetClappingState j b)
  with set_get_exact [OF assms, of now j b] show ?thesis by auto
next
  case (Heartbeat j b)
  show ?thesis
  proof (cases b)
    case None
    with Heartbeat heartbeat_None_get [OF assms, of now j] show ?thesis by auto
  next
    case (Some b')
    with Heartbeat set_get_exact [OF assms, of now j b'] show ?thesis
      by (auto simp add: heartbeat_Some)
  qed
next
  case (CreateXVerificationChallenge j h t e)
  with create_get [OF assms, of now j h t e] show ?thesis by auto
next
  case (CompleteXVerificationChallenge j u)
  with complete_get [OF assms, of now j u] show ?thesis by auto
qed

lemma exec_clapArg:
  "clapArg c i = Some b \<Longrightarrow> exec now c d = fst (setClappingState now i b d)"
  by (induction c i rule: clapArg.induct) (auto simp add: heartbeat_Some split: if_splits)


text \<open>
  C3. For an existing agent and a boolean, \<open>setClappingState\<close> and \<open>heartbeat\<close> with that
  boolean do the same: the call succeeds and reports whether the flag changed; the agent
  becomes \<open>spec_setClapping\<close> of itself (the elapsed clapping time
  \<open>max(0, now - lastStateChangedAt)\<close> is added to \<open>cumulativeClapMs\<close> exactly on a
  transition from clapping to not clapping, the flag is set, \<open>lastStateChangedAt\<close> is
  stamped only if the flag changed, \<open>lastHeartbeatAt\<close> is always stamped); no other agent
  and no challenge changes; and exactly one clap event, \<open>started\<close> when turning on and
  \<open>stopped\<close> when turning off, is appended if and only if the flag changed.
\<close>

theorem clap_state_transition:
  assumes "db_get agent.docId (agents d) i = Some a"
  shows "heartbeat now i (Some b) d = setClappingState now i b d
       \<and> snd (setClappingState now i b d) =
           Inr \<lparr> changeResult.ok = True, changed = (isClapping a \<noteq> b) \<rparr>
       \<and> db_get agent.docId (agents (fst (setClappingState now i b d))) i =
           Some (spec_setClapping a b now)
       \<and> (\<forall>j. j \<noteq> i \<longrightarrow> db_get agent.docId (agents (fst (setClappingState now i b d))) j =
             db_get agent.docId (agents d) j)
       \<and> clapEvents (fst (setClappingState now i b d)) =
           clapEvents d @
           (if isClapping a \<noteq> b
            then [\<lparr> clapEvent.docId = nextId d, agentId = i, agentName = name a,
                    type = (if b then Started else Stopped), createdAt = now \<rparr>]
            else [])
       \<and> xVerificationChallenges (fst (setClappingState now i b d)) = xVerificationChallenges d"
  using state_transition_aux [OF assms, of now b] db_get_id [OF assms]
  by (simp add: heartbeat_Some spec_event_def)

theorem clap_state_transition_witness:
  "db_get agent.docId (agents dbAB) 0 = Some agentA
   \<and> heartbeat 100 0 (Some False) dbAB = setClappingState 100 0 False dbAB
   \<and> map_option cumulativeClapMs
       (db_get agent.docId (agents (fst (setClappingState 100 0 False dbAB))) 0) = Some 100
   \<and> clapEvents (fst (setClappingState 100 0 False dbAB)) =
       [\<lparr> clapEvent.docId = 2, agentId = 0, agentName = ''a'', type = Stopped,
          createdAt = 100 \<rparr>]"
proof -
  have h: "db_get agent.docId (agents dbAB) 0 = Some agentA"
    by (simp add: db_get_def dbAB_def agentA_def)
  from clap_state_transition [OF h, of 100 False] h show ?thesis
    by (simp add: spec_setClapping_def agentA_def dbAB_def)
qed

text \<open>
  C4. Setting the clapping flag of an existing agent to the value it already has, by
  \<open>setClappingState\<close> or by \<open>heartbeat\<close>, emits no clap event and changes nothing but the
  \<open>lastHeartbeatAt\<close> and \<open>updatedAt\<close> of that agent: \<open>isClapping\<close>, \<open>cumulativeClapMs\<close> and
  \<open>lastStateChangedAt\<close> stay as they were, and so do the other agents, the challenges and
  the events.
\<close>

theorem same_value_write:
  assumes "db_get agent.docId (agents d) i = Some a" and "b = isClapping a"
  shows "heartbeat now i (Some b) d = setClappingState now i b d
       \<and> snd (setClappingState now i b d) = Inr \<lparr> changeResult.ok = True, changed = False \<rparr>
       \<and> clapEvents (fst (setClappingState now i b d)) = clapEvents d
       \<and> (\<exists>a'. db_get agent.docId (agents (fst (setClappingState now i b d))) i = Some a'
            \<and> a' = a\<lparr> lastHeartbeatAt := now, updatedAt := now \<rparr>
            \<and> isClapping a' = isClapping a
            \<and> cumulativeClapMs a' = cumulativeClapMs a
            \<and> lastStateChangedAt a' = lastStateChangedAt a
            \<and> lastHeartbeatAt a' = now \<and> updatedAt a' = now)
       \<and> (\<forall>j. j \<noteq> i \<longrightarrow> db_get agent.docId (agents (fst (setClappingState now i b d))) j =
             db_get agent.docId (agents d) j)
       \<and> map agent.docId (agents (fst (setClappingState now i b d))) = map agent.docId (agents d)
       \<and> xVerificationChallenges (fst (setClappingState now i b d)) = xVerificationChallenges d
       \<and> nextId (fst (setClappingState now i b d)) = nextId d"
  using state_transition_aux [OF assms(1), of now b] assms(2)
  by (simp add: heartbeat_Some spec_setClapping_def)

theorem same_value_write_witness:
  "db_get agent.docId (agents dbAB) 0 = Some agentA \<and> True = isClapping agentA
   \<and> clapEvents (fst (setClappingState 100 0 True dbAB)) = []
   \<and> db_get agent.docId (agents (fst (setClappingState 100 0 True dbAB))) 0 =
       Some (agentA\<lparr> lastHeartbeatAt := 100, updatedAt := 100 \<rparr>)"
proof -
  have h: "db_get agent.docId (agents dbAB) 0 = Some agentA"
    by (simp add: db_get_def dbAB_def agentA_def)
  have c: "True = isClapping agentA"
    by (simp add: agentA_def)
  from same_value_write [OF h c, of 100] h c show ?thesis
    by (simp add: dbAB_def)
qed

lemma toggle_aux:
  assumes "db_get agent.docId (agents d) i = Some a" and "isClapping a"
    and "lastStateChangedAt a = now"
  shows "map_option cumulativeClapMs
           (db_get agent.docId
              (agents (fst (setClappingState now i True (fst (setClappingState now i False d))))) i)
           = Some (cumulativeClapMs a)
       \<and> clapEvents (fst (setClappingState now i True (fst (setClappingState now i False d)))) =
           clapEvents d @
           [\<lparr> clapEvent.docId = nextId d, agentId = i, agentName = name a, type = Stopped,
               createdAt = now \<rparr>,
            \<lparr> clapEvent.docId = Suc (nextId d), agentId = i, agentName = name a, type = Started,
               createdAt = now \<rparr>]"
proof -
  let ?d1 = "fst (setClappingState now i False d)"
  have i: "agent.docId a = i" using assms(1) by (rule db_get_id)
  from state_transition_aux [OF assms(1), of now False] assms(2)
  have g1: "db_get agent.docId (agents ?d1) i = Some (spec_setClapping a False now)"
    and e1: "clapEvents ?d1 = clapEvents d @ [spec_event (nextId d) a False now]"
    and n1: "nextId ?d1 = Suc (nextId d)"
    by simp_all
  from state_transition_aux [OF g1, of now True] assms(2,3) e1 n1 i show ?thesis
    by (simp add: spec_setClapping_def spec_event_def)
qed

text \<open>
  C5. Across one call of \<open>registerAgent\<close>, \<open>setClappingState\<close>, \<open>heartbeat\<close>,
  \<open>createXVerificationChallenge\<close> or \<open>completeXVerificationChallenge\<close> at time \<open>now\<close>, every
  agent of the database is still there and its \<open>cumulativeClapMs\<close> has not decreased.
  It is the old value plus the time spent clapping since the last state change,
  \<open>max(0, now - lastStateChangedAt)\<close>, when the call is a \<open>setClappingState\<close> or a
  \<open>heartbeat\<close> that sets the flag of this clapping agent to false, and the old value after
  every other call; so it changes only on a transition from clapping to not clapping.
  An agent that is clapping and whose last state change is at \<open>now\<close>, toggled off and on
  again at \<open>now\<close> by \<open>setClappingState\<close> or \<open>heartbeat\<close>, keeps its \<open>cumulativeClapMs\<close>, and
  exactly two events are emitted: one \<open>stopped\<close>, one \<open>started\<close>.
\<close>

theorem cumulative_monotone:
  assumes "db_get agent.docId (agents d) i = Some a"
  shows "(\<exists>a'. db_get agent.docId (agents (exec now c d)) i = Some a'
            \<and> cumulativeClapMs a \<le> cumulativeClapMs a'
            \<and> cumulativeClapMs a' =
                (if isClapping a \<and> clapArg c i = Some False
                 then cumulativeClapMs a + max 0 (now - lastStateChangedAt a)
                 else cumulativeClapMs a)
            \<and> isClapping a' = (case clapArg c i of None \<Rightarrow> isClapping a | Some b \<Rightarrow> b)
            \<and> (cumulativeClapMs a' \<noteq> cumulativeClapMs a \<longrightarrow>
                 isClapping a \<and> \<not> isClapping a'
                 \<and> cumulativeClapMs a' =
                     cumulativeClapMs a + max 0 (now - lastStateChangedAt a)))
       \<and> (\<forall>c1 c2. clapArg c1 i = Some False \<and> clapArg c2 i = Some True
             \<and> isClapping a \<and> lastStateChangedAt a = now \<longrightarrow>
            map_option cumulativeClapMs
              (db_get agent.docId (agents (exec now c2 (exec now c1 d))) i)
              = Some (cumulativeClapMs a)
            \<and> clapEvents (exec now c2 (exec now c1 d)) =
                clapEvents d @
                [\<lparr> clapEvent.docId = nextId d, agentId = i, agentName = name a,
                    type = Stopped, createdAt = now \<rparr>,
                 \<lparr> clapEvent.docId = Suc (nextId d), agentId = i, agentName = name a,
                    type = Started, createdAt = now \<rparr>]
            \<and> length (clapEvents (exec now c2 (exec now c1 d))) = length (clapEvents d) + 2)"
proof (intro conjI allI impI)
  from exec_exact [OF assms, of now c] obtain a' where
    g: "db_get agent.docId (agents (exec now c d)) i = Some a'"
    and e: "cumulativeClapMs a' =
              (if isClapping a \<and> clapArg c i = Some False
               then cumulativeClapMs a + max 0 (now - lastStateChangedAt a)
               else cumulativeClapMs a)"
    and f: "isClapping a' = (case clapArg c i of None \<Rightarrow> isClapping a | Some b \<Rightarrow> b)"
    by blast
  have m: "cumulativeClapMs a \<le> cumulativeClapMs a'"
    using e by simp
  have s: "cumulativeClapMs a' \<noteq> cumulativeClapMs a \<longrightarrow>
                 isClapping a \<and> \<not> isClapping a'
                 \<and> cumulativeClapMs a' =
                     cumulativeClapMs a + max 0 (now - lastStateChangedAt a)"
    using e f by (simp split: if_splits)
  from g m e f s
  show "\<exists>a'. db_get agent.docId (agents (exec now c d)) i = Some a'
            \<and> cumulativeClapMs a \<le> cumulativeClapMs a'
            \<and> cumulativeClapMs a' =
                (if isClapping a \<and> clapArg c i = Some False
                 then cumulativeClapMs a + max 0 (now - lastStateChangedAt a)
                 else cumulativeClapMs a)
            \<and> isClapping a' = (case clapArg c i of None \<Rightarrow> isClapping a | Some b \<Rightarrow> b)
            \<and> (cumulativeClapMs a' \<noteq> cumulativeClapMs a \<longrightarrow>
                 isClapping a \<and> \<not> isClapping a'
                 \<and> cumulativeClapMs a' =
                     cumulativeClapMs a + max 0 (now - lastStateChangedAt a))"
    by (intro exI [of _ a'] conjI)
next
  fix c1 c2
  assume h: "clapArg c1 i = Some False \<and> clapArg c2 i = Some True
             \<and> isClapping a \<and> lastStateChangedAt a = now"
  then have "exec now c1 d = fst (setClappingState now i False d)"
    and "exec now c2 (exec now c1 d) = fst (setClappingState now i True (exec now c1 d))"
    by (simp_all add: exec_clapArg [of c1 i False] exec_clapArg [of c2 i True])
  then have x: "exec now c2 (exec now c1 d) =
      fst (setClappingState now i True (fst (setClappingState now i False d)))"
    by simp
  from h have p: "isClapping a" and q: "lastStateChangedAt a = now"
    by simp_all
  from toggle_aux [OF assms p q]
  show "map_option cumulativeClapMs
              (db_get agent.docId (agents (exec now c2 (exec now c1 d))) i)
              = Some (cumulativeClapMs a)"
    unfolding x by (rule conjunct1)
  from toggle_aux [OF assms p q]
  show "clapEvents (exec now c2 (exec now c1 d)) =
                clapEvents d @
                [\<lparr> clapEvent.docId = nextId d, agentId = i, agentName = name a,
                    type = Stopped, createdAt = now \<rparr>,
                 \<lparr> clapEvent.docId = Suc (nextId d), agentId = i, agentName = name a,
                    type = Started, createdAt = now \<rparr>]"
    unfolding x by (rule conjunct2)
  then show "length (clapEvents (exec now c2 (exec now c1 d))) = length (clapEvents d) + 2"
    by simp
qed

theorem cumulative_monotone_witness:
  "db_get agent.docId (agents dbC) 0 = Some agentC
   \<and> isClapping agentC \<and> lastStateChangedAt agentC = 100 \<and> cumulativeClapMs agentC = 40
   \<and> map_option cumulativeClapMs
       (db_get agent.docId (agents (exec 250 (Heartbeat 0 (Some False)) dbC)) 0) = Some 190
   \<and> map_option isClapping
       (db_get agent.docId (agents (exec 250 (Heartbeat 0 (Some False)) dbC)) 0) = Some False
   \<and> map_option cumulativeClapMs
       (db_get agent.docId (agents (exec 250 (Heartbeat 0 None) dbC)) 0) = Some 40
   \<and> clapArg (Heartbeat 0 (Some False)) 0 = Some False
   \<and> clapArg (SetClappingState 0 True) 0 = Some True
   \<and> map_option cumulativeClapMs
       (db_get agent.docId
          (agents (exec 100 (SetClappingState 0 True) (exec 100 (Heartbeat 0 (Some False)) dbC)))
          0) = Some 40
   \<and> length (clapEvents (exec 100 (SetClappingState 0 True)
                (exec 100 (Heartbeat 0 (Some False)) dbC))) = 2"
proof -
  have h: "db_get agent.docId (agents dbC) 0 = Some agentC"
    by (simp add: db_get_def dbC_def agentC_def)
  have c: "isClapping agentC" "lastStateChangedAt agentC = 100" "cumulativeClapMs agentC = 40"
    by (simp_all add: agentC_def)
  have k: "clapArg (Heartbeat 0 (Some False)) 0 = Some False"
    "clapArg (SetClappingState 0 True) 0 = Some True" "clapArg (Heartbeat 0 None) 0 = None"
    by simp_all
  have e: "clapEvents dbC = []"
    by (simp add: dbC_def)
  from cumulative_monotone [OF h, of 250 "Heartbeat 0 (Some False)", THEN conjunct1] c k
  have r1: "map_option cumulativeClapMs
       (db_get agent.docId (agents (exec 250 (Heartbeat 0 (Some False)) dbC)) 0) = Some 190
     \<and> map_option isClapping
       (db_get agent.docId (agents (exec 250 (Heartbeat 0 (Some False)) dbC)) 0) = Some False"
    by auto
  from cumulative_monotone [OF h, of 250 "Heartbeat 0 None", THEN conjunct1] c k
  have r2: "map_option cumulativeClapMs
       (db_get agent.docId (agents (exec 250 (Heartbeat 0 None) dbC)) 0) = Some 40"
    by auto
  have p: "clapArg (Heartbeat 0 (Some False)) 0 = Some False
           \<and> clapArg (SetClappingState 0 True) 0 = Some True
           \<and> isClapping agentC \<and> lastStateChangedAt agentC = 100"
    using c k by simp
  note T = cumulative_monotone [OF h, of 100, THEN conjunct2, rule_format, OF p]
  from T c have r3: "map_option cumulativeClapMs
       (db_get agent.docId
          (agents (exec 100 (SetClappingState 0 True) (exec 100 (Heartbeat 0 (Some False)) dbC)))
          0) = Some 40"
    by simp
  from T e have r4: "length (clapEvents (exec 100 (SetClappingState 0 True)
                (exec 100 (Heartbeat 0 (Some False)) dbC))) = 2"
    by simp
  from h c r1 r2 k(1,2) r3 r4 show ?thesis
    by (intro conjI) simp_all
qed

lemma dbAB_agents:
  "db_get agent.docId (agents dbAB) 0 = Some agentA"
  "db_get agent.docId (agents dbAB) 1 = Some agentB"
  by (simp_all add: db_get_def dbAB_def agentA_def agentB_def)

text \<open>
  Toggling with no time passing between the calls does not always leave the accumulator
  as it was: \<open>agentA\<close> has been clapping since time 0 and has \<open>cumulativeClapMs = 0\<close>; set
  to false and to true again, both at time 100, it has \<open>cumulativeClapMs = 100\<close>. And the
  calls true, false, true at time 100 for \<open>agentB\<close>, which is not clapping, emit three
  events.
\<close>

theorem toggle_counterexample:
  "db_get agent.docId (agents dbAB) 0 = Some agentA
   \<and> isClapping agentA \<and> cumulativeClapMs agentA = 0
   \<and> map_option cumulativeClapMs
       (db_get agent.docId
          (agents (exec 100 (SetClappingState 0 True) (exec 100 (SetClappingState 0 False) dbAB)))
          0) = Some 100
   \<and> length (clapEvents (exec 100 (SetClappingState 0 True)
                (exec 100 (SetClappingState 0 False) dbAB))) = 2
   \<and> length (clapEvents (exec 100 (SetClappingState 1 True)
                (exec 100 (SetClappingState 1 False)
                   (exec 100 (SetClappingState 1 True) dbAB)))) = 3"
proof -
  let ?d1 = "fst (setClappingState 100 0 False dbAB)"
  let ?d2 = "fst (setClappingState 100 0 True ?d1)"
  have a: "isClapping agentA" "cumulativeClapMs agentA = 0" "lastStateChangedAt agentA = 0"
    by (simp_all add: agentA_def)
  note s1 = state_transition_aux [OF dbAB_agents(1), of 100 False]
  from s1 a have g1: "db_get agent.docId (agents ?d1) 0 = Some (spec_setClapping agentA False 100)"
    and e1: "length (clapEvents ?d1) = 1"
    by (simp_all add: dbAB_def)
  note s2 = state_transition_aux [OF g1, of 100 True]
  from s2 a have g2: "map_option cumulativeClapMs (db_get agent.docId (agents ?d2) 0) = Some 100"
    by (simp add: spec_setClapping_def)
  from s2 e1 a have e2: "length (clapEvents ?d2) = 2"
    by (simp add: spec_setClapping_def)
  let ?b1 = "fst (setClappingState 100 1 True dbAB)"
  let ?b2 = "fst (setClappingState 100 1 False ?b1)"
  let ?b3 = "fst (setClappingState 100 1 True ?b2)"
  have b: "\<not> isClapping agentB"
    by (simp add: agentB_def)
  note t1 = state_transition_aux [OF dbAB_agents(2), of 100 True]
  from t1 b have h1: "db_get agent.docId (agents ?b1) 1 = Some (spec_setClapping agentB True 100)"
    and f1: "length (clapEvents ?b1) = 1"
    by (simp_all add: dbAB_def)
  note t2 = state_transition_aux [OF h1, of 100 False]
  from t2 b have h2: "db_get agent.docId (agents ?b2) 1 =
      Some (spec_setClapping (spec_setClapping agentB True 100) False 100)"
    by simp
  from t2 f1 b have f2: "length (clapEvents ?b2) = 2"
    by (simp add: spec_setClapping_def)
  note t3 = state_transition_aux [OF h2, of 100 True]
  from t3 f2 b have f3: "length (clapEvents ?b3) = 3"
    by (simp add: spec_setClapping_def)
  from dbAB_agents(1) a(1,2) g2 e2 f3 show ?thesis
    by simp
qed

section \<open>History reconstruction: proofs\<close>

lemma loopBody_step:
  "loopBody n (r, ps) e =
     (max 0 (min (int n) (if type e = Started then r - 1 else r + 1)),
      ps @ [mkPoint n (clapEvent.createdAt e)
              (max 0 (min (int n) (if type e = Started then r - 1 else r + 1)))])"
  by (simp add: loopBody_def Let_def)

lemma foldl_loopBody:
  "foldl (loopBody n) (r, ps) evs =
     (last (r # map snd (spec_walkBack (int n) r evs)),
      ps @ map (\<lambda>(t, c). mkPoint n t c) (spec_walkBack (int n) r evs))"
proof (induction evs arbitrary: r ps)
  case Nil
  show ?case by simp
next
  case (Cons e es)
  show ?case
    by (simp add: loopBody_step Let_def Cons.IH)
qed

lemma historyPoints_series:
  "historyPoints d r now =
     map (\<lambda>(t, c). mkPoint (length (agents d)) t c)
       (spec_series now (int (length (agents d)))
          (int (length (filter isClapping (agents d)))) (filtered d r now))"
  by (simp add: historyPoints_def Let_def foldl_loopBody spec_series_def rev_map)

lemma historyPoints_pairs:
  "map (\<lambda>p. (ts p, point.clappingNow p)) (historyPoints d r now) =
     spec_series now (int (length (agents d)))
       (int (length (filter isClapping (agents d)))) (filtered d r now)"
  by (simp add: historyPoints_series mkPoint_def comp_def case_prod_beta)

lemma historyPoints_pct:
  "p \<in> set (historyPoints d r now) \<Longrightarrow>
   pct p = (if length (agents d) \<noteq> 0
            then (real_of_int (point.clappingNow p) / real (length (agents d))) * 100 else 0)"
  by (auto simp add: historyPoints_series mkPoint_def)

lemma walkBack_range:
  "(t, c) \<in> set (spec_walkBack (int n) r evs) \<Longrightarrow> 0 \<le> c \<and> c \<le> int n"
  by (induction evs arbitrary: r) (auto simp add: Let_def)

lemma desc_sorted:
  "sorted_wrt (\<lambda>x y. clapEvent.createdAt y \<le> clapEvent.createdAt x) (by_created_at_desc evs)"
proof -
  have "sorted (map clapEvent.createdAt (sort_key clapEvent.createdAt evs))"
    by (rule sorted_sort_key)
  then have "sorted_wrt (\<lambda>x y. clapEvent.createdAt x \<le> clapEvent.createdAt y)
               (sort_key clapEvent.createdAt evs)"
    by (simp add: sorted_map)
  then show ?thesis
    by (simp add: by_created_at_desc_def sorted_wrt_rev)
qed

lemma filtered_sorted:
  "sorted_wrt (\<lambda>x y. clapEvent.createdAt y \<le> clapEvent.createdAt x) (filtered d r now)"
  by (simp add: filtered_def Let_def sorted_wrt_filter sorted_wrt_take desc_sorted)

lemma map_snd_filter_enumerate:
  "(\<And>i. n \<le> i \<Longrightarrow> i < n + length ps \<Longrightarrow> Q i) \<Longrightarrow>
   map snd (filter (\<lambda>(i, p). Q i) (enumerate n ps)) = ps"
  by (induction ps arbitrary: n) simp_all

lemma sampled_small:
  assumes "length ps \<le> maxPoints r"
  shows "sampled r ps = ps"
proof -
  have m: "0 < maxPoints r" by (simp add: maxPoints_def)
  have "real (length ps) / real (maxPoints r) \<le> 1"
    using assms m by simp
  then have "\<lceil>real (length ps) / real (maxPoints r)\<rceil> \<le> 1"
    by (simp add: ceiling_le_one)
  then have s: "max 1 \<lceil>real (length ps) / real (maxPoints r)\<rceil> = 1"
    by simp
  show ?thesis
    unfolding sampled_def Let_def s
    by (rule map_snd_filter_enumerate) simp
qed


lemma historyPoints_range:
  "p \<in> set (historyPoints d r now) \<Longrightarrow>
   0 \<le> point.clappingNow p \<and> point.clappingNow p \<le> int (length (agents d))"
  by (auto simp add: historyPoints_series spec_series_def mkPoint_def dest: walkBack_range)

lemma filtered_inWindow:
  "filtered d r now = filter (inWindow r now) (take 5000 (by_created_at_desc (clapEvents d)))"
  by (simp add: filtered_def inWindow_def Let_def)

lemma filter_take_desc:
  "sorted_wrt (\<lambda>x y. f y \<le> f x) xs \<Longrightarrow>
   filter (\<lambda>e. (c::real) \<le> f e) (take n xs) = take n (filter (\<lambda>e. c \<le> f e) xs)"
proof (induction xs arbitrary: n)
  case Nil
  show ?case by simp
next
  case (Cons x xs)
  show ?case
  proof (cases n)
    case 0
    then show ?thesis by simp
  next
    case (Suc m)
    show ?thesis
    proof (cases "c \<le> f x")
      case True
      with Cons Suc show ?thesis by simp
    next
      case False
      with Cons.prems have "\<forall>y\<in>set xs. \<not> c \<le> f y" by auto
      then have "filter (\<lambda>e. c \<le> f e) xs = []"
        by (simp add: filter_empty_conv)
      moreover have "filter (\<lambda>e. c \<le> f e) (take m xs) = []"
        using \<open>\<forall>y\<in>set xs. \<not> c \<le> f y\<close> by (auto simp add: filter_empty_conv dest: in_set_takeD)
      ultimately show ?thesis using False Suc by simp
    qed
  qed
qed

lemma filtered_take:
  "filtered d r now = take 5000 (filter (inWindow r now) (by_created_at_desc (clapEvents d)))"
  unfolding filtered_def inWindow_def Let_def
  using filter_take_desc [OF desc_sorted, of "now - windows r" 5000 "clapEvents d"]
  by simp

lemma length_filter_desc:
  "length (filter P (by_created_at_desc evs)) = length (filter P evs)"
  by (simp add: by_created_at_desc_def rev_filter [symmetric] filter_sort)

lemma length_filtered:
  "length (filtered d r now) = min 5000 (length (filter (inWindow r now) (clapEvents d)))"
  by (simp add: filtered_take length_filter_desc min.commute)

lemma length_walkBack: "length (spec_walkBack t r evs) = length evs"
  by (induction evs arbitrary: r) (simp_all add: Let_def)

lemma length_historyPoints: "length (historyPoints d r now) = Suc (length (filtered d r now))"
  by (simp add: historyPoints_series spec_series_def length_walkBack)

lemma inWindow_dbMany:
  assumes "n \<le> 3600000"
  shows "length (filter (inWindow Hour (real n)) (clapEvents (dbMany n))) = n"
proof -
  have "\<forall>e \<in> set (clapEvents (dbMany n)). inWindow Hour (real n) e"
    using assms by (auto simp add: dbMany_def inWindow_def ev_def windows_def)
  then show ?thesis by (simp add: dbMany_def)
qed

lemma length_sampled:
  "length (sampled r ps) =
     length (filter (\<lambda>i. int i mod max 1 \<lceil>real (length ps) / real (maxPoints r)\<rceil> = 0
                \<or> int i = int (length ps) - 1) [0..<length ps])"
proof -
  have "length (filter (\<lambda>(i, p). Q i) (enumerate n ps)) = length (filter Q [n..<n + length ps])"
    for Q :: "nat \<Rightarrow> bool" and n
  proof -
    have "(\<lambda>(i, p). Q i) = Q \<circ> (fst :: nat \<times> point \<Rightarrow> nat)"
      by (simp add: fun_eq_iff)
    moreover have "length (filter (Q \<circ> fst) (enumerate n ps)) =
               length (filter Q (map fst (enumerate n ps)))"
      unfolding filter_map by simp
    moreover have "map fst (enumerate n ps) = [n..<n + length ps]"
      by simp
    ultimately show ?thesis by simp
  qed
  from this [of _ 0] show ?thesis
    by (simp add: sampled_def Let_def)
qed

lemma count121: "length (filter (\<lambda>i. int i mod 2 = 0 \<or> int i = 121) [0..<122]) = 62"
  by code_simp

lemma sampled_dbMany: "length (points (getClapRateHistory (dbMany 121) Hour 121)) = 62"
proof -
  have "length (filtered (dbMany 121) Hour (real 121)) = 121"
    using inWindow_dbMany [of 121] by (simp add: length_filtered)
  then have l: "length (historyPoints (dbMany 121) Hour 121) = 122"
    using length_historyPoints [of "dbMany 121" Hour 121] by simp
  have c: "\<lceil>(122::real) / 120\<rceil> = 2" by simp
  show ?thesis
    using count121 by (simp add: getClapRateHistory_def length_sampled l maxPoints_def c)
qed


lemma count5: "length (filter (\<lambda>k. k < 5) [0..<10 :: nat]) = 5"
  by code_simp

lemma db10_facts:
  "length (agents db10) = 10"
  "length (filter isClapping (agents db10)) = 5"
  "filtered db10 Hour 3601000 = [\<lparr> clapEvent.docId = 10, agentId = 0, agentName = ''b'',
      type = Started, createdAt = 1000 \<rparr>]"
proof -
  show "length (agents db10) = 10" by (simp add: db10_def)
  have "filter isClapping (agents db10) =
        map (\<lambda>k. agentB\<lparr> agent.docId := k, isClapping := (k < 5) \<rparr>) (filter (\<lambda>k. k < 5) [0..<10])"
    by (simp add: db10_def filter_map comp_def)
  then show "length (filter isClapping (agents db10)) = 5"
    using count5 by simp
  show "filtered db10 Hour 3601000 = [\<lparr> clapEvent.docId = 10, agentId = 0, agentName = ''b'',
      type = Started, createdAt = 1000 \<rparr>]"
    by (simp add: filtered_def db10_def by_created_at_desc_def windows_def)
qed

lemma example_points:
  assumes "length (agents d) = 10" and "length (filter isClapping (agents d)) = 5"
    and "filtered d r now = [e]" and "type e = Started"
  shows "points (getClapRateHistory d r now) =
           [\<lparr> ts = clapEvent.createdAt e, clappingNow = 4, pct = 40 \<rparr>,
            \<lparr> ts = now, clappingNow = 5, pct = 50 \<rparr>]"
proof -
  have h: "historyPoints d r now =
           [\<lparr> ts = clapEvent.createdAt e, clappingNow = 4, pct = 40 \<rparr>,
            \<lparr> ts = now, clappingNow = 5, pct = 50 \<rparr>]"
    using assms by (simp add: historyPoints_series spec_series_def mkPoint_def Let_def)
  have "length (historyPoints d r now) \<le> maxPoints r"
    by (simp add: h maxPoints_def)
  then show ?thesis
    by (simp add: getClapRateHistory_def sampled_small h)
qed


text \<open>
  C6. \<open>getClapRateHistory\<close> anchors the point \<open>(now, current clapping count)\<close>, then walks
  the events it replays (those of the 5000 newest that are in the window), newest first:
  a \<open>started\<close> event decrements the running count, a \<open>stopped\<close> event increments it,
  clamped to \<open>[0, totalAgents]\<close> at every step. The series of these points, reversed into
  chronological order, is \<open>historyPoints\<close>; the function returns it sampled, and returns
  the whole of it when it has at most \<open>maxPoints\<close> points (120 for an hour, 200 for a day,
  260 otherwise). With ten agents, five of them clapping, and one \<open>started\<close> event as the
  only replayed event, the series is the point at the event's time with count 4 (the
  count at every instant before the event) and the anchor with count 5.
\<close>

theorem history_reconstruction:
  "map (\<lambda>p. (ts p, point.clappingNow p)) (historyPoints d r now) =
     spec_series now (int (length (agents d)))
       (int (length (filter isClapping (agents d)))) (filtered d r now)
   \<and> (\<forall>p \<in> set (historyPoints d r now).
         0 \<le> point.clappingNow p \<and> point.clappingNow p \<le> int (length (agents d))
         \<and> pct p = (if length (agents d) \<noteq> 0
                    then (real_of_int (point.clappingNow p) / real (length (agents d))) * 100
                    else 0))
   \<and> sorted_wrt (\<lambda>x y. clapEvent.createdAt y \<le> clapEvent.createdAt x) (filtered d r now)
   \<and> set (filtered d r now) \<subseteq> {e \<in> set (clapEvents d). inWindow r now e}
   \<and> points (getClapRateHistory d r now) = sampled r (historyPoints d r now)
   \<and> (length (historyPoints d r now) \<le> maxPoints r \<longrightarrow>
        points (getClapRateHistory d r now) = historyPoints d r now)
   \<and> (length (agents d) = 10 \<and> length (filter isClapping (agents d)) = 5
        \<and> filtered d r now = [e] \<and> type e = Started \<longrightarrow>
        points (getClapRateHistory d r now) =
          [\<lparr> ts = clapEvent.createdAt e, clappingNow = 4, pct = 40 \<rparr>,
           \<lparr> ts = now, clappingNow = 5, pct = 50 \<rparr>])"
proof (intro conjI impI ballI)
  show "map (\<lambda>p. (ts p, point.clappingNow p)) (historyPoints d r now) =
     spec_series now (int (length (agents d)))
       (int (length (filter isClapping (agents d)))) (filtered d r now)"
    by (rule historyPoints_pairs)
  show "sorted_wrt (\<lambda>x y. clapEvent.createdAt y \<le> clapEvent.createdAt x) (filtered d r now)"
    by (rule filtered_sorted)
  show "set (filtered d r now) \<subseteq> {e \<in> set (clapEvents d). inWindow r now e}"
    by (auto simp add: filtered_inWindow by_created_at_desc_def dest: in_set_takeD)
  show "points (getClapRateHistory d r now) = sampled r (historyPoints d r now)"
    by (simp add: getClapRateHistory_def)
next
  fix p assume p: "p \<in> set (historyPoints d r now)"
  then show "pct p = (if length (agents d) \<noteq> 0
                    then (real_of_int (point.clappingNow p) / real (length (agents d))) * 100
                    else 0)"
    by (rule historyPoints_pct)
  from p show "0 \<le> point.clappingNow p" and "point.clappingNow p \<le> int (length (agents d))"
    by (rule historyPoints_range [THEN conjunct1], rule historyPoints_range [THEN conjunct2])
next
  assume "length (historyPoints d r now) \<le> maxPoints r"
  then show "points (getClapRateHistory d r now) = historyPoints d r now"
    by (simp add: getClapRateHistory_def sampled_small)
next
  assume "length (agents d) = 10 \<and> length (filter isClapping (agents d)) = 5
        \<and> filtered d r now = [e] \<and> type e = Started"
  then show "points (getClapRateHistory d r now) =
          [\<lparr> ts = clapEvent.createdAt e, clappingNow = 4, pct = 40 \<rparr>,
           \<lparr> ts = now, clappingNow = 5, pct = 50 \<rparr>]"
    by (simp add: example_points)
qed

theorem history_reconstruction_witness:
  "length (agents db10) = 10 \<and> length (filter isClapping (agents db10)) = 5
   \<and> filtered db10 Hour 3601000 =
       [\<lparr> clapEvent.docId = 10, agentId = 0, agentName = ''b'', type = Started,
          createdAt = 1000 \<rparr>]
   \<and> points (getClapRateHistory db10 Hour 3601000) =
       [\<lparr> ts = 1000, clappingNow = 4, pct = 40 \<rparr>, \<lparr> ts = 3601000, clappingNow = 5, pct = 50 \<rparr>]
   \<and> length (historyPoints db10 Hour 3601000) \<le> maxPoints Hour
   \<and> points (getClapRateHistory db10 Hour 3601000) = historyPoints db10 Hour 3601000
   \<and> \<lparr> ts = 1000, clappingNow = 4, pct = 40 \<rparr> \<in> set (historyPoints db10 Hour 3601000)"
proof -
  have l: "length (historyPoints db10 Hour 3601000) \<le> maxPoints Hour"
    by (simp add: length_historyPoints db10_facts maxPoints_def)
  note H = history_reconstruction
         [of db10 Hour 3601000
             "\<lparr> clapEvent.docId = 10, agentId = 0, agentName = ''b'', type = Started,
                createdAt = 1000 \<rparr>"]
  have t: "type \<lparr> clapEvent.docId = 10, agentId = 0, agentName = ''b'', type = Started,
                createdAt = 1000 \<rparr> = Started"
    by simp
  from H db10_facts t
  have p1: "points (getClapRateHistory db10 Hour 3601000) =
       [\<lparr> ts = clapEvent.createdAt \<lparr> clapEvent.docId = 10, agentId = 0, agentName = ''b'',
                type = Started, createdAt = 1000 \<rparr>, clappingNow = 4, pct = 40 \<rparr>,
        \<lparr> ts = 3601000, clappingNow = 5, pct = 50 \<rparr>]"
    by blast
  from H l have p2: "points (getClapRateHistory db10 Hour 3601000) = historyPoints db10 Hour 3601000"
    by blast
  from p1 p2 have m: "\<lparr> ts = 1000, clappingNow = 4, pct = 40 \<rparr> \<in> set (historyPoints db10 Hour 3601000)"
    by simp
  from p1 p2 m l db10_facts show ?thesis by simp
qed

text \<open>
  The series returned is not always the whole reversed series: with 121 events in the
  last hour the series has 122 points, and 62 are returned.
\<close>

theorem history_sampled_counterexample:
  "length (points (getClapRateHistory (dbMany 121) Hour 121)) = 62
   \<and> length (spec_series 121 (int (length (agents (dbMany 121))))
               (int (length (filter isClapping (agents (dbMany 121)))))
               (filtered (dbMany 121) Hour 121)) = 122"
proof -
  have "length (filtered (dbMany 121) Hour (real 121)) = 121"
    using inWindow_dbMany [of 121] by (simp add: length_filtered)
  then have "length (spec_series 121 (int (length (agents (dbMany 121))))
               (int (length (filter isClapping (agents (dbMany 121)))))
               (filtered (dbMany 121) Hour 121)) = 122"
    by (simp add: spec_series_def length_walkBack)
  with sampled_dbMany show ?thesis by simp
qed

text \<open>
  C10. \<open>getClapRateHistory\<close> replays the 5000 newest of the events in the window:
  \<open>filtered\<close> is the first 5000 of the in-window events, newest first. The in-window
  events beyond them are not replayed, and their number is the number of in-window
  events minus 5000; when the window holds at most 5000 events, all of them are replayed.
\<close>

theorem history_replays_newest_5000:
  "filtered d r now = take 5000 (filter (inWindow r now) (by_created_at_desc (clapEvents d)))
   \<and> length (filtered d r now) = min 5000 (length (filter (inWindow r now) (clapEvents d)))
   \<and> length (historyPoints d r now) = Suc (length (filtered d r now))
   \<and> filter (inWindow r now) (by_created_at_desc (clapEvents d)) =
       filtered d r now @ drop 5000 (filter (inWindow r now) (by_created_at_desc (clapEvents d)))
   \<and> length (drop 5000 (filter (inWindow r now) (by_created_at_desc (clapEvents d)))) =
       length (filter (inWindow r now) (clapEvents d)) - 5000
   \<and> (length (filter (inWindow r now) (clapEvents d)) \<le> 5000 \<longrightarrow>
        filtered d r now = filter (inWindow r now) (by_created_at_desc (clapEvents d)))"
proof (intro conjI impI)
  show "filtered d r now = take 5000 (filter (inWindow r now) (by_created_at_desc (clapEvents d)))"
    by (rule filtered_take)
  show "length (filtered d r now) = min 5000 (length (filter (inWindow r now) (clapEvents d)))"
    by (rule length_filtered)
  show "length (historyPoints d r now) = Suc (length (filtered d r now))"
    by (rule length_historyPoints)
  show "filter (inWindow r now) (by_created_at_desc (clapEvents d)) =
       filtered d r now @ drop 5000 (filter (inWindow r now) (by_created_at_desc (clapEvents d)))"
    by (simp add: filtered_take)
  show "length (drop 5000 (filter (inWindow r now) (by_created_at_desc (clapEvents d)))) =
       length (filter (inWindow r now) (clapEvents d)) - 5000"
    by (simp add: length_filter_desc)
next
  assume "length (filter (inWindow r now) (clapEvents d)) \<le> 5000"
  then show "filtered d r now = filter (inWindow r now) (by_created_at_desc (clapEvents d))"
    by (simp add: filtered_take length_filter_desc)
qed

theorem history_replays_newest_5000_witness:
  "length (filter (inWindow Hour 121) (clapEvents (dbMany 121))) \<le> 5000
   \<and> filtered (dbMany 121) Hour 121 =
       filter (inWindow Hour 121) (by_created_at_desc (clapEvents (dbMany 121)))
   \<and> length (filter (inWindow Hour 5001) (clapEvents (dbMany 5001))) = 5001
   \<and> length (filtered (dbMany 5001) Hour 5001) = 5000
   \<and> length (drop 5000 (filter (inWindow Hour 5001)
               (by_created_at_desc (clapEvents (dbMany 5001))))) = 1"
proof -
  have a: "length (filter (inWindow Hour 121) (clapEvents (dbMany 121))) = 121"
    using inWindow_dbMany [of 121] by simp
  have b: "length (filter (inWindow Hour 5001) (clapEvents (dbMany 5001))) = 5001"
    using inWindow_dbMany [of 5001] by simp
  note H1 = history_replays_newest_5000 [of "dbMany 121" Hour 121]
  note H2 = history_replays_newest_5000 [of "dbMany 5001" Hour 5001]
  from a have a': "length (filter (inWindow Hour 121) (clapEvents (dbMany 121))) \<le> 5000"
    by simp
  from H1 a' have c1: "filtered (dbMany 121) Hour 121 =
       filter (inWindow Hour 121) (by_created_at_desc (clapEvents (dbMany 121)))"
    by blast
  from H2 have "length (filtered (dbMany 5001) Hour 5001) =
      min 5000 (length (filter (inWindow Hour 5001) (clapEvents (dbMany 5001))))"
    by blast
  with b have c2: "length (filtered (dbMany 5001) Hour 5001) = 5000"
    by simp
  from H2 have "length (drop 5000 (filter (inWindow Hour 5001)
               (by_created_at_desc (clapEvents (dbMany 5001))))) =
       length (filter (inWindow Hour 5001) (clapEvents (dbMany 5001))) - 5000"
    by blast
  with b have c3: "length (drop 5000 (filter (inWindow Hour 5001)
               (by_created_at_desc (clapEvents (dbMany 5001))))) = 1"
    by simp
  from a' b c1 c2 c3 show ?thesis by blast
qed

section \<open>X verification: proofs\<close>

lemma set_by_x_verified: "set (by_x_verified as) = set as"
  by (auto simp add: by_x_verified_def)

lemma find_Some_set: "find P xs = Some x \<Longrightarrow> x \<in> set xs \<and> P x"
  by (induction xs) (auto split: if_splits)

lemma existingOwner_Some:
  "existingOwner d h = Some w \<Longrightarrow> verifiedOwner d h w"
  using find_Some_set [of "\<lambda>a. xVerified a = True \<and> xHandle a = Some h" "by_x_verified (agents d)" w]
  by (simp add: existingOwner_def verifiedOwner_def set_by_x_verified)

lemma existingOwner_None:
  "existingOwner d h = None \<Longrightarrow> \<not> verifiedOwner d h w"
  by (auto simp add: existingOwner_def verifiedOwner_def find_None_iff set_by_x_verified)

lemma owner_conflict:
  assumes "atMostOneOwner d" and "verifiedOwner d h a" and "j \<noteq> agent.docId a"
  shows "(case existingOwner d h of None \<Rightarrow> False | Some owner \<Rightarrow> agent.docId owner \<noteq> j)"
proof (cases "existingOwner d h")
  case None
  with existingOwner_None assms(2) show ?thesis by blast
next
  case (Some w)
  then have "verifiedOwner d h w" by (rule existingOwner_Some)
  with assms(1,2) have "agent.docId w = agent.docId a"
    unfolding atMostOneOwner_def verifiedOwner_def by auto
  with Some assms(3) show ?thesis by simp
qed

lemma no_conflict:
  assumes "\<forall>w \<in> set (agents d). xVerified w \<and> xHandle w = Some h \<longrightarrow> agent.docId w = j"
  shows "\<not> (case existingOwner d h of None \<Rightarrow> False | Some owner \<Rightarrow> agent.docId owner \<noteq> j)"
proof (cases "existingOwner d h")
  case None
  then show ?thesis by simp
next
  case (Some w)
  then have "verifiedOwner d h w" by (rule existingOwner_Some)
  with assms have "agent.docId w = j" unfolding verifiedOwner_def by blast
  with Some show ?thesis by simp
qed

lemma create_conflict:
  assumes "atMostOneOwner d" and "verifiedOwner d (normalizeXHandle raw) a"
    and "j \<noteq> agent.docId a" and "db_get agent.docId (agents d) j = Some b"
  shows "createXVerificationChallenge_handler now j raw t e d = (d, Inl Handle_already_linked)"
  using owner_conflict [OF assms(1,2,3)] assms(4)
  by (simp add: createXVerificationChallenge_handler_def Let_def)

lemma complete_errors:
  assumes "db_get xVerificationChallenge.docId (xVerificationChallenges d) c = Some ch"
    and "(case existingOwner d (xVerificationChallenge.xHandle ch) of None \<Rightarrow> False
          | Some owner \<Rightarrow> agent.docId owner \<noteq> xVerificationChallenge.agentId ch)
         \<or> truthy (completedAt ch) \<or> xVerificationChallenge.expiresAt ch < now"
  shows "completeXVerificationChallenge_handler now c u d =
     (d, Inl (if truthy (completedAt ch) then Challenge_already_completed
              else if xVerificationChallenge.expiresAt ch < now then Challenge_expired
              else Handle_already_linked))"
proof (cases "truthy (completedAt ch)")
  case True
  with assms(1) show ?thesis
    by (simp add: completeXVerificationChallenge_handler_def)
next
  case False
  note nt = this
  show ?thesis
  proof (cases "xVerificationChallenge.expiresAt ch < now")
    case True
    with assms(1) nt show ?thesis
      by (simp add: completeXVerificationChallenge_handler_def)
  next
    case False
    with nt assms(2)
    have "(case existingOwner d (xVerificationChallenge.xHandle ch) of None \<Rightarrow> False
          | Some owner \<Rightarrow> agent.docId owner \<noteq> xVerificationChallenge.agentId ch)"
      by simp
    with assms(1) nt False show ?thesis
      by (simp add: completeXVerificationChallenge_handler_def)
  qed
qed

lemma complete_not_found:
  assumes "db_get xVerificationChallenge.docId (xVerificationChallenges d) c = None"
  shows "completeXVerificationChallenge_handler now c u d = (d, Inl Challenge_not_found)"
  using assms by (simp add: completeXVerificationChallenge_handler_def)


lemma db_patch_split:
  "db_patch idOf i f tbl = Some tbl' \<Longrightarrow>
   \<exists>xs x ys. tbl = xs @ x # ys \<and> tbl' = xs @ f x # ys \<and> idOf x = i"
proof (induction tbl arbitrary: tbl')
  case Nil
  then show ?case by simp
next
  case (Cons y tbl)
  show ?case
  proof (cases "idOf y = i")
    case True
    with Cons.prems have "tbl' = f y # tbl" by simp
    with True show ?thesis by (intro exI [of _ "[]"] exI [of _ y] exI [of _ tbl]) simp
  next
    case False
    with Cons.prems obtain zs where zs: "db_patch idOf i f tbl = Some zs" "tbl' = y # zs"
      by auto
    from Cons.IH [OF zs(1)] obtain xs x ys
      where "tbl = xs @ x # ys" "zs = xs @ f x # ys" "idOf x = i"
      by blast
    with zs(2) show ?thesis
      by (intro exI [of _ "y # xs"] exI [of _ x] exI [of _ ys]) simp
  qed
qed

lemma patchAgent_split:
  assumes "patchAgent j g d1 = Inr d2"
  shows "\<exists>xs x ys. agents d1 = xs @ x # ys \<and> agents d2 = xs @ g x # ys \<and> agent.docId x = j"
proof -
  from assms obtain tbl' where "db_patch agent.docId j g (agents d1) = Some tbl'"
    and "d2 = d1\<lparr>agents := tbl'\<rparr>"
    by (auto simp add: patchAgent_def split: option.splits)
  with db_patch_split [of agent.docId j g "agents d1" tbl'] show ?thesis by simp
qed

lemma patch_inv_same:
  assumes "atMostOneOwner d" and "agents d1 = agents d" and "patchAgent j g d1 = Inr d2"
    and "\<And>x. agent.docId (g x) = agent.docId x \<and> xVerified (g x) = xVerified x
               \<and> xHandle (g x) = xHandle x"
  shows "atMostOneOwner d2"
proof -
  from patchAgent_split [OF assms(3)] assms(2) obtain xs x ys
    where s: "agents d = xs @ x # ys" "agents d2 = xs @ g x # ys"
    by auto
  have "(\<lambda>a. (agent.docId a, xVerified a, xHandle a)) ` set (agents d2) =
        (\<lambda>a. (agent.docId a, xVerified a, xHandle a)) ` set (agents d)"
    using s assms(4) by (simp add: image_Un)
  have k: "atMostOneOwner e =
        (\<forall>p \<in> (\<lambda>a. (agent.docId a, xVerified a, xHandle a)) ` set (agents e).
         \<forall>q \<in> (\<lambda>a. (agent.docId a, xVerified a, xHandle a)) ` set (agents e).
           fst (snd p) \<and> fst (snd q) \<and> snd (snd p) \<noteq> None \<and> snd (snd p) = snd (snd q)
           \<longrightarrow> fst p = fst q)" for e
    by (simp add: atMostOneOwner_def)
  show ?thesis
    using assms(1)
      \<open>(\<lambda>a. (agent.docId a, xVerified a, xHandle a)) ` set (agents d2) =
        (\<lambda>a. (agent.docId a, xVerified a, xHandle a)) ` set (agents d)\<close>
    unfolding k by simp
qed

lemma patch_inv_handle:
  assumes "atMostOneOwner d" and "agents d1 = agents d" and "patchAgent j g d1 = Inr d2"
    and "\<And>x. agent.docId (g x) = agent.docId x \<and> xHandle (g x) = Some h"
    and "\<not> (case existingOwner d h of None \<Rightarrow> False | Some w \<Rightarrow> agent.docId w \<noteq> j)"
  shows "atMostOneOwner d2"
proof -
  from patchAgent_split [OF assms(3)] assms(2) obtain xs x ys
    where s: "agents d = xs @ x # ys" "agents d2 = xs @ g x # ys" and x: "agent.docId x = j"
    by auto
  have old: "b \<in> set xs \<union> set ys \<Longrightarrow> b \<in> set (agents d)" for b
    using s(1) by auto
  have own: "agent.docId b = j" if "b \<in> set (agents d)" "xVerified b" "xHandle b = Some h" for b
  proof -
    from that have vb: "verifiedOwner d h b" by (simp add: verifiedOwner_def)
    show ?thesis
    proof (cases "existingOwner d h")
      case None
      with existingOwner_None vb show ?thesis by blast
    next
      case (Some w)
      then have "verifiedOwner d h w" by (rule existingOwner_Some)
      with assms(1) vb have "agent.docId b = agent.docId w"
        unfolding atMostOneOwner_def verifiedOwner_def by auto
      with Some assms(5) show ?thesis by simp
    qed
  qed
  show ?thesis
    unfolding atMostOneOwner_def
  proof (intro ballI impI)
    fix a b
    assume a: "a \<in> set (agents d2)" and b: "b \<in> set (agents d2)"
      and h: "xVerified a \<and> xVerified b \<and> xHandle a \<noteq> None \<and> xHandle a = xHandle b"
    from a s(2) have ca: "a = g x \<or> a \<in> set xs \<union> set ys" by auto
    from b s(2) have cb: "b = g x \<or> b \<in> set xs \<union> set ys" by auto
    from ca cb show "agent.docId a = agent.docId b"
    proof (elim disjE)
      assume "a = g x" "b = g x"
      then show ?thesis by simp
    next
      assume e: "a = g x" and m: "b \<in> set xs \<union> set ys"
      from e h assms(4) have "xHandle b = Some h" by simp
      with own [OF old [OF m]] h have "agent.docId b = j" by simp
      with e x assms(4) show ?thesis by simp
    next
      assume m: "a \<in> set xs \<union> set ys" and e: "b = g x"
      from e h assms(4) have "xHandle a = Some h" by simp
      with own [OF old [OF m]] h have "agent.docId a = j" by simp
      with e x assms(4) show ?thesis by simp
    next
      assume "a \<in> set xs \<union> set ys" "b \<in> set xs \<union> set ys"
      then have "a \<in> set (agents d)" "b \<in> set (agents d)" by (auto intro: old)
      with assms(1) h show ?thesis unfolding atMostOneOwner_def by blast
    qed
  qed
qed


lemma inv_cong: "agents d = agents d' \<Longrightarrow> atMostOneOwner d = atMostOneOwner d'"
  by (simp add: atMostOneOwner_def)

lemma inv_register:
  assumes "atMostOneOwner d"
  shows "atMostOneOwner (fst (registerAgent now n h d))"
  using assms
  by (auto simp add: registerAgent_def mutation_def registerAgent_handler_def insertAgent_def
      atMostOneOwner_def)

lemma inv_set:
  assumes "atMostOneOwner d"
  shows "atMostOneOwner (fst (setClappingState now j b d))"
proof (cases "db_get agent.docId (agents d) j")
  case None
  then have "fst (setClappingState now j b d) = d"
    by (simp add: setClappingState_def mutation_def setClappingState_handler_def)
  with assms show ?thesis by simp
next
  case (Some a)
  from setClappingState_eq [OF Some, of b now] obtain tbl'
    where t: "db_patch agent.docId j (patched a b now) (agents d) = Some tbl'"
      and e: "agents (fst (setClappingState now j b d)) = tbl'"
    by auto
  from t have p: "patchAgent j (patched a b now) d = Inr (d\<lparr>agents := tbl'\<rparr>)"
    by (simp add: patchAgent_def)
  have "atMostOneOwner (d\<lparr>agents := tbl'\<rparr>)"
    by (rule patch_inv_same [OF assms refl p]) (simp add: patched_def)
  with e show ?thesis
    using inv_cong [of "fst (setClappingState now j b d)" "d\<lparr>agents := tbl'\<rparr>"] by simp
qed

lemma inv_heartbeat_None:
  assumes "atMostOneOwner d"
  shows "atMostOneOwner (fst (heartbeat now j None d))"
proof (cases "patchAgent j (\<lambda>a. a\<lparr> lastHeartbeatAt := now, updatedAt := now \<rparr>) d")
  case (Inl e)
  then have "fst (heartbeat now j None d) = d"
    by (simp add: heartbeat_def mutation_def heartbeat_handler_def split: option.splits)
  with assms show ?thesis by simp
next
  case (Inr d1)
  then have f: "fst (heartbeat now j None d) = d1 \<or> fst (heartbeat now j None d) = d"
    by (simp add: heartbeat_def mutation_def heartbeat_handler_def split: option.splits)
  have "atMostOneOwner d1"
    by (rule patch_inv_same [OF assms refl Inr]) simp
  with f assms show ?thesis by auto
qed

lemma withChallenge_agents: "agents (withChallenge ch d) = agents d"
  by (simp add: withChallenge_def)

lemma create_handler_Inr:
  assumes "createXVerificationChallenge_handler now j raw t e d = (d', Inr r)"
  shows "\<exists>b. db_get agent.docId (agents d) j = Some b
    \<and> \<not> (case existingOwner d (normalizeXHandle raw) of None \<Rightarrow> False
           | Some w \<Rightarrow> agent.docId w \<noteq> j)
    \<and> patchAgent j (\<lambda>a. a\<lparr> xHandle := Some (normalizeXHandle raw), updatedAt := now \<rparr>)
         (withChallenge (newChallenge now j (normalizeXHandle raw) t e (nextId d)) d) = Inr d'
    \<and> r = \<lparr> challengeId = nextId d, challengeText = t, xHandle = normalizeXHandle raw,
             expiresAt = e \<rparr>"
  using assms
  by (auto simp add: createXVerificationChallenge_handler_def Let_def insertChallenge_def
      withChallenge_def newChallenge_def
      split: option.splits sum.splits if_splits)

lemma inv_create:
  assumes "atMostOneOwner d"
  shows "atMostOneOwner (fst (createXVerificationChallenge now j raw t e d))"
proof -
  let ?h = "createXVerificationChallenge_handler now j raw t e"
  from mutation_cases [of ?h d] show ?thesis
  proof
    assume "\<exists>e. mutation ?h d = (d, Inl e)"
    then have "fst (createXVerificationChallenge now j raw t e d) = d"
      by (auto simp add: createXVerificationChallenge_def)
    with assms show ?thesis by simp
  next
    assume "\<exists>r. ?h d = mutation ?h d \<and> snd (?h d) = Inr r"
    then obtain r where r: "?h d = (fst (createXVerificationChallenge now j raw t e d), Inr r)"
      by (metis createXVerificationChallenge_def prod.collapse)
    from create_handler_Inr [OF r] have
      c: "\<not> (case existingOwner d (normalizeXHandle raw) of None \<Rightarrow> False
           | Some w \<Rightarrow> agent.docId w \<noteq> j)"
      and p: "patchAgent j (\<lambda>a. a\<lparr> xHandle := Some (normalizeXHandle raw), updatedAt := now \<rparr>)
               (withChallenge (newChallenge now j (normalizeXHandle raw) t e (nextId d)) d)
               = Inr (fst (createXVerificationChallenge now j raw t e d))"
      by auto
    show ?thesis
      by (rule patch_inv_handle [OF assms withChallenge_agents p _ c]) simp
  qed
qed

lemma inv_complete:
  assumes "atMostOneOwner d"
  shows "atMostOneOwner (fst (completeXVerificationChallenge now c u d))"
proof -
  let ?h = "completeXVerificationChallenge_handler now c u"
  from mutation_cases [of ?h d] show ?thesis
  proof
    assume "\<exists>e. mutation ?h d = (d, Inl e)"
    then have "fst (completeXVerificationChallenge now c u d) = d"
      by (auto simp add: completeXVerificationChallenge_def)
    with assms show ?thesis by simp
  next
    assume "\<exists>r. ?h d = mutation ?h d \<and> snd (?h d) = Inr r"
    then obtain r where r: "?h d = (fst (completeXVerificationChallenge now c u d), Inr r)"
      by (metis completeXVerificationChallenge_def prod.collapse)
    from complete_handler_Inr [OF r] obtain ch :: xVerificationChallenge and d1 where
      n: "(case existingOwner d (xVerificationChallenge.xHandle ch) of None \<Rightarrow> True
           | Some owner \<Rightarrow> agent.docId owner = xVerificationChallenge.agentId ch)"
      and pc: "patchChallenge (xVerificationChallenge.docId ch)
         (\<lambda>c. c\<lparr> completedAt := Some now, matchedPostUrl := u \<rparr>) d = Inr d1"
      and pa: "patchAgent (xVerificationChallenge.agentId ch)
         (\<lambda>a. a\<lparr> xHandle := Some (xVerificationChallenge.xHandle ch), xVerified := True,
                  updatedAt := now \<rparr>) d1 = Inr (fst (completeXVerificationChallenge now c u d))"
      by auto
    from n have c: "\<not> (case existingOwner d (xVerificationChallenge.xHandle ch) of None \<Rightarrow> False
           | Some w \<Rightarrow> agent.docId w \<noteq> xVerificationChallenge.agentId ch)"
      by (simp split: option.splits)
    show ?thesis
      by (rule patch_inv_handle [OF assms patchChallenge_agents [OF pc] pa _ c]) simp
  qed
qed

lemma inv_exec:
  assumes "atMostOneOwner d"
  shows "atMostOneOwner (exec now c d)"
proof (cases c)
  case (RegisterAgent n h)
  with inv_register [OF assms] show ?thesis by simp
next
  case (SetClappingState j b)
  with inv_set [OF assms] show ?thesis by simp
next
  case (Heartbeat j b)
  show ?thesis
  proof (cases b)
    case None
    with Heartbeat inv_heartbeat_None [OF assms] show ?thesis by simp
  next
    case (Some b')
    with Heartbeat inv_set [OF assms] show ?thesis by (simp add: heartbeat_Some)
  qed
next
  case (CreateXVerificationChallenge j h t e)
  with inv_create [OF assms] show ?thesis by simp
next
  case (CompleteXVerificationChallenge j u)
  with inv_complete [OF assms] show ?thesis by simp
qed


lemma complete_mutation_error:
  "completeXVerificationChallenge_handler now c u d = (d, Inl e) \<Longrightarrow>
   completeXVerificationChallenge now c u d = (d, Inl e)"
  by (simp add: completeXVerificationChallenge_def mutation_def)

lemma complete_success:
  assumes g: "db_get xVerificationChallenge.docId (xVerificationChallenges d) c = Some ch"
    and nc: "\<not> truthy (completedAt ch)"
    and ne: "\<not> xVerificationChallenge.expiresAt ch < now"
    and no: "\<forall>w \<in> set (agents d). xVerified w \<and> xHandle w = Some (xVerificationChallenge.xHandle ch)
               \<longrightarrow> agent.docId w = xVerificationChallenge.agentId ch"
    and ag: "db_get agent.docId (agents d) (xVerificationChallenge.agentId ch) = Some a"
  shows "\<exists>d'. completeXVerificationChallenge now c u d =
           (d', Inr \<lparr> completeResult.ok = True, agentId = xVerificationChallenge.agentId ch,
                      xHandle = xVerificationChallenge.xHandle ch \<rparr>)
       \<and> db_get xVerificationChallenge.docId (xVerificationChallenges d') c =
           Some (ch\<lparr> completedAt := Some now, matchedPostUrl := u \<rparr>)
       \<and> (\<forall>j. j \<noteq> c \<longrightarrow> db_get xVerificationChallenge.docId (xVerificationChallenges d') j =
             db_get xVerificationChallenge.docId (xVerificationChallenges d) j)
       \<and> db_get agent.docId (agents d') (xVerificationChallenge.agentId ch) =
           Some (a\<lparr> xHandle := Some (xVerificationChallenge.xHandle ch), xVerified := True,
                    updatedAt := now \<rparr>)
       \<and> (\<forall>j. j \<noteq> xVerificationChallenge.agentId ch \<longrightarrow>
             db_get agent.docId (agents d') j = db_get agent.docId (agents d) j)
       \<and> clapEvents d' = clapEvents d"
proof -
  let ?fc = "\<lambda>c :: xVerificationChallenge. c\<lparr> completedAt := Some now, matchedPostUrl := u \<rparr>"
  let ?fa = "\<lambda>a :: agent. a\<lparr> xHandle := Some (xVerificationChallenge.xHandle ch), xVerified := True,
                  updatedAt := now \<rparr>"
  have cid: "xVerificationChallenge.docId ch = c" using g by (rule db_get_id)
  from db_patch_Some [OF g] obtain cs
    where cs: "db_patch xVerificationChallenge.docId c ?fc (xVerificationChallenges d) = Some cs"
    by blast
  from db_patch_Some [OF ag] obtain as
    where as: "db_patch agent.docId (xVerificationChallenge.agentId ch) ?fa (agents d) = Some as"
    by blast
  let ?d1 = "d\<lparr>xVerificationChallenges := cs\<rparr>"
  let ?d2 = "?d1\<lparr>agents := as\<rparr>"
  have pc: "patchChallenge (xVerificationChallenge.docId ch) ?fc d = Inr ?d1"
    using cs cid by (simp add: patchChallenge_def)
  have pa: "patchAgent (xVerificationChallenge.agentId ch) ?fa ?d1 = Inr ?d2"
    using as by (simp add: patchAgent_def)
  have h: "completeXVerificationChallenge_handler now c u d =
           (?d2, Inr \<lparr> completeResult.ok = True, agentId = xVerificationChallenge.agentId ch,
                      xHandle = xVerificationChallenge.xHandle ch \<rparr>)"
    using g nc ne no_conflict [OF no] pc pa
    by (simp add: completeXVerificationChallenge_handler_def)
  then have m: "completeXVerificationChallenge now c u d =
           (?d2, Inr \<lparr> completeResult.ok = True, agentId = xVerificationChallenge.agentId ch,
                      xHandle = xVerificationChallenge.xHandle ch \<rparr>)"
    by (simp add: completeXVerificationChallenge_def mutation_Inr)
  have gc: "db_get xVerificationChallenge.docId cs j =
       (if j = c then map_option ?fc (db_get xVerificationChallenge.docId (xVerificationChallenges d) c)
        else db_get xVerificationChallenge.docId (xVerificationChallenges d) j)" for j
    by (rule db_get_patch [OF _ cs]) simp
  have ga: "db_get agent.docId as j =
       (if j = xVerificationChallenge.agentId ch
        then map_option ?fa (db_get agent.docId (agents d) (xVerificationChallenge.agentId ch))
        else db_get agent.docId (agents d) j)" for j
    by (rule db_get_patch [OF _ as]) simp
  show ?thesis
    using m gc ga g ag by (intro exI [of _ ?d2]) simp
qed

lemma complete_twice:
  assumes "completeXVerificationChallenge now c u d = (d', Inr r)" and "now \<noteq> 0"
  shows "completeXVerificationChallenge now' c u' d' = (d', Inl Challenge_already_completed)"
proof -
  from assms(1) have h: "completeXVerificationChallenge_handler now c u d = (d', Inr r)"
    by (auto simp add: completeXVerificationChallenge_def mutation_def split: prod.splits sum.splits)
  from complete_handler_Inr [OF h] obtain ch :: xVerificationChallenge and d1 where
    g: "db_get xVerificationChallenge.docId (xVerificationChallenges d) c = Some ch"
    and pc: "patchChallenge (xVerificationChallenge.docId ch)
         (\<lambda>c. c\<lparr> completedAt := Some now, matchedPostUrl := u \<rparr>) d = Inr d1"
    and pa: "patchAgent (xVerificationChallenge.agentId ch)
         (\<lambda>a. a\<lparr> xHandle := Some (xVerificationChallenge.xHandle ch), xVerified := True,
                  updatedAt := now \<rparr>) d1 = Inr d'"
    by auto
  have cid: "xVerificationChallenge.docId ch = c" using g by (rule db_get_id)
  from pc obtain cs where
    cs: "db_patch xVerificationChallenge.docId c
           (\<lambda>c. c\<lparr> completedAt := Some now, matchedPostUrl := u \<rparr>) (xVerificationChallenges d) = Some cs"
    and d1: "xVerificationChallenges d1 = cs"
    using cid by (auto simp add: patchChallenge_def split: option.splits)
  from pa have "xVerificationChallenges d' = xVerificationChallenges d1"
    by (auto simp add: patchAgent_def split: option.splits)
  with d1 have d': "xVerificationChallenges d' = cs" by simp
  have "db_get xVerificationChallenge.docId cs c =
       map_option (\<lambda>c. c\<lparr> completedAt := Some now, matchedPostUrl := u \<rparr>)
         (db_get xVerificationChallenge.docId (xVerificationChallenges d) c)"
    using db_get_patch [of xVerificationChallenge.docId _ c "xVerificationChallenges d" cs c, OF _ cs]
    by simp
  with g d' have g': "db_get xVerificationChallenge.docId (xVerificationChallenges d') c =
       Some (ch\<lparr> completedAt := Some now, matchedPostUrl := u \<rparr>)"
    by simp
  have t: "truthy (completedAt (ch\<lparr> completedAt := Some now, matchedPostUrl := u \<rparr>))"
    using assms(2) by (simp add: truthy_def)
  from complete_errors [OF g', of now' u'] t
  have "completeXVerificationChallenge_handler now' c u' d' = (d', Inl Challenge_already_completed)"
    by simp
  then show ?thesis by (rule complete_mutation_error)
qed


lemma deleteLoop_filter:
  "deleteLoop idOf P docs tbl = filter (\<lambda>x. idOf x \<notin> idOf ` {e \<in> set docs. P e}) tbl"
proof (induction docs arbitrary: tbl)
  case Nil
  show ?case by (simp add: deleteLoop_def)
next
  case (Cons e es)
  have "deleteLoop idOf P (e # es) tbl =
        deleteLoop idOf P es (if P e then db_delete idOf (idOf e) tbl else tbl)"
    by (simp add: deleteLoop_def)
  also have "\<dots> = filter (\<lambda>x. idOf x \<notin> idOf ` {e \<in> set es. P e})
                     (if P e then db_delete idOf (idOf e) tbl else tbl)"
    by (rule Cons.IH)
  also have "\<dots> = filter (\<lambda>x. idOf x \<notin> idOf ` {e' \<in> set (e # es). P e'}) tbl"
    by (auto simp add: db_delete_def intro!: filter_cong)
  finally show ?case .
qed

lemma patchAgent_challenges:
  "patchAgent j g d1 = Inr d2 \<Longrightarrow> xVerificationChallenges d2 = xVerificationChallenges d1"
  by (auto simp add: patchAgent_def split: option.splits)

lemma wf_patchAgent:
  assumes "wf_db d1" and "patchAgent j g d1 = Inr d2" and "\<And>x. agent.docId (g x) = agent.docId x"
  shows "wf_db d2"
proof -
  have "db_get agent.docId (agents d2) i =
         (if i = j then map_option g (db_get agent.docId (agents d1) j)
          else db_get agent.docId (agents d1) i)" for i
    by (rule patchAgent_get [OF assms(2,3)])
  then have "(db_get agent.docId (agents d2) i = None) = (db_get agent.docId (agents d1) i = None)" for i
    by simp
  with assms(1) patchAgent_challenges [OF assms(2)] show ?thesis
    by (simp add: wf_db_def)
qed

lemma wf_cong:
  "agents d = agents d' \<Longrightarrow> xVerificationChallenges d = xVerificationChallenges d' \<Longrightarrow>
   wf_db d = wf_db d'"
  by (simp add: wf_db_def)

lemma wf_register:
  assumes "wf_db d"
  shows "wf_db (fst (registerAgent now n h d))"
  using assms
  by (auto simp add: registerAgent_def mutation_def registerAgent_handler_def insertAgent_def
      wf_db_def db_get_append split: option.splits)

lemma wf_set:
  assumes "wf_db d"
  shows "wf_db (fst (setClappingState now j b d))"
proof (cases "db_get agent.docId (agents d) j")
  case None
  then have "fst (setClappingState now j b d) = d"
    by (simp add: setClappingState_def mutation_def setClappingState_handler_def)
  with assms show ?thesis by simp
next
  case (Some a)
  from setClappingState_eq [OF Some, of b now] obtain tbl'
    where t: "db_patch agent.docId j (patched a b now) (agents d) = Some tbl'"
      and e: "agents (fst (setClappingState now j b d)) = tbl'"
         "xVerificationChallenges (fst (setClappingState now j b d)) = xVerificationChallenges d"
    by auto
  from t have p: "patchAgent j (patched a b now) d = Inr (d\<lparr>agents := tbl'\<rparr>)"
    by (simp add: patchAgent_def)
  have "wf_db (d\<lparr>agents := tbl'\<rparr>)"
    by (rule wf_patchAgent [OF assms p]) (simp add: patched_def)
  with e show ?thesis
    using wf_cong [of "fst (setClappingState now j b d)" "d\<lparr>agents := tbl'\<rparr>"] by simp
qed

lemma wf_heartbeat_None:
  assumes "wf_db d"
  shows "wf_db (fst (heartbeat now j None d))"
proof (cases "patchAgent j (\<lambda>a. a\<lparr> lastHeartbeatAt := now, updatedAt := now \<rparr>) d")
  case (Inl e)
  then have "fst (heartbeat now j None d) = d"
    by (simp add: heartbeat_def mutation_def heartbeat_handler_def split: option.splits)
  with assms show ?thesis by simp
next
  case (Inr d1)
  then have f: "fst (heartbeat now j None d) = d1 \<or> fst (heartbeat now j None d) = d"
    by (simp add: heartbeat_def mutation_def heartbeat_handler_def split: option.splits)
  have "wf_db d1"
    by (rule wf_patchAgent [OF assms Inr]) simp
  with f assms show ?thesis by auto
qed

lemma wf_create:
  assumes "wf_db d"
  shows "wf_db (fst (createXVerificationChallenge now j raw t e d))"
proof -
  let ?h = "createXVerificationChallenge_handler now j raw t e"
  from mutation_cases [of ?h d] show ?thesis
  proof
    assume "\<exists>e. mutation ?h d = (d, Inl e)"
    then have "fst (createXVerificationChallenge now j raw t e d) = d"
      by (auto simp add: createXVerificationChallenge_def)
    with assms show ?thesis by simp
  next
    assume "\<exists>r. ?h d = mutation ?h d \<and> snd (?h d) = Inr r"
    then obtain r where r: "?h d = (fst (createXVerificationChallenge now j raw t e d), Inr r)"
      by (metis createXVerificationChallenge_def prod.collapse)
    from create_handler_Inr [OF r] obtain b where
      b: "db_get agent.docId (agents d) j = Some b"
      and p: "patchAgent j (\<lambda>a. a\<lparr> xHandle := Some (normalizeXHandle raw), updatedAt := now \<rparr>)
               (withChallenge (newChallenge now j (normalizeXHandle raw) t e (nextId d)) d)
               = Inr (fst (createXVerificationChallenge now j raw t e d))"
      by auto
    have "wf_db (withChallenge (newChallenge now j (normalizeXHandle raw) t e (nextId d)) d)"
      using assms b by (auto simp add: wf_db_def withChallenge_def newChallenge_def)
    then show ?thesis
      by (rule wf_patchAgent [OF _ p]) simp
  qed
qed

lemma wf_complete:
  assumes "wf_db d" and "0 < now"
  shows "wf_db (fst (completeXVerificationChallenge now c u d))"
proof -
  let ?h = "completeXVerificationChallenge_handler now c u"
  from mutation_cases [of ?h d] show ?thesis
  proof
    assume "\<exists>e. mutation ?h d = (d, Inl e)"
    then have "fst (completeXVerificationChallenge now c u d) = d"
      by (auto simp add: completeXVerificationChallenge_def)
    with assms show ?thesis by simp
  next
    assume "\<exists>r. ?h d = mutation ?h d \<and> snd (?h d) = Inr r"
    then obtain r where r: "?h d = (fst (completeXVerificationChallenge now c u d), Inr r)"
      by (metis completeXVerificationChallenge_def prod.collapse)
    from complete_handler_Inr [OF r] obtain ch :: xVerificationChallenge and d1 where
      pc: "patchChallenge (xVerificationChallenge.docId ch)
         (\<lambda>c. c\<lparr> completedAt := Some now, matchedPostUrl := u \<rparr>) d = Inr d1"
      and pa: "patchAgent (xVerificationChallenge.agentId ch)
         (\<lambda>a. a\<lparr> xHandle := Some (xVerificationChallenge.xHandle ch), xVerified := True,
                  updatedAt := now \<rparr>) d1 = Inr (fst (completeXVerificationChallenge now c u d))"
      by auto
    from pc obtain cs where
      cs: "db_patch xVerificationChallenge.docId (xVerificationChallenge.docId ch)
             (\<lambda>c. c\<lparr> completedAt := Some now, matchedPostUrl := u \<rparr>)
             (xVerificationChallenges d) = Some cs"
      and d1: "d1 = d\<lparr>xVerificationChallenges := cs\<rparr>"
      by (auto simp add: patchChallenge_def split: option.splits)
    from db_patch_split [OF cs] obtain xs x ys where
      s: "xVerificationChallenges d = xs @ x # ys"
         "cs = xs @ x\<lparr> completedAt := Some now, matchedPostUrl := u \<rparr> # ys"
      by blast
    have "wf_db d1"
      using assms s d1 by (auto simp add: wf_db_def)
    then show ?thesis
      by (rule wf_patchAgent [OF _ pa]) simp
  qed
qed

lemma wf_exec:
  assumes "wf_db d" and "0 < now"
  shows "wf_db (exec now c d)"
proof (cases c)
  case (RegisterAgent n h)
  with wf_register [OF assms(1)] show ?thesis by simp
next
  case (SetClappingState j b)
  with wf_set [OF assms(1)] show ?thesis by simp
next
  case (Heartbeat j b)
  show ?thesis
  proof (cases b)
    case None
    with Heartbeat wf_heartbeat_None [OF assms(1)] show ?thesis by simp
  next
    case (Some b')
    with Heartbeat wf_set [OF assms(1)] show ?thesis by (simp add: heartbeat_Some)
  qed
next
  case (CreateXVerificationChallenge j h t e)
  with wf_create [OF assms(1)] show ?thesis by simp
next
  case (CompleteXVerificationChallenge j u)
  with wf_complete [OF assms] show ?thesis by simp
qed


lemma deleteLoop_all: "deleteLoop idOf (\<lambda>x. True) tbl tbl = []"
  by (simp add: deleteLoop_filter filter_empty_conv)

lemma deleteLoop_subset: "set (deleteLoop idOf P docs tbl) \<subseteq> set tbl"
  by (simp add: deleteLoop_filter)

lemma deleteLoop_self: "x \<in> set (deleteLoop idOf P tbl tbl) \<Longrightarrow> \<not> P x"
  by (auto simp add: deleteLoop_filter)

lemma db_get_filter:
  assumes "\<And>x. P x = Q (idOf x)"
  shows "db_get idOf (filter P tbl) i = (if Q i then db_get idOf tbl i else None)"
  using assms by (induction tbl) (auto simp add: db_get_def)

lemma deleteLoop_agents:
  assumes "set docs = set tbl"
  shows "deleteLoop agent.docId (\<lambda>a. agent.docId a \<notin> K) docs tbl =
         filter (\<lambda>x. agent.docId x \<in> K) tbl"
  unfolding deleteLoop_filter using assms by (auto intro!: filter_cong)

lemma deleteBut_tables:
  "\<exists>K. agents (fst (deleteAllButNAgents keep d)) = filter (\<lambda>x. agent.docId x \<in> K) (agents d)
      \<and> set (xVerificationChallenges (fst (deleteAllButNAgents keep d)))
          \<subseteq> {c \<in> set (xVerificationChallenges d). xVerificationChallenge.agentId c \<in> K}"
proof -
  let ?sorted = "sort_key (\<lambda>a. - createdAt a) (agents d)"
  let ?K = "set (map agent.docId (take (nat (max 0 \<lfloor>keep\<rfloor>)) ?sorted))"
  have a: "agents (fst (deleteAllButNAgents keep d)) =
           deleteLoop agent.docId (\<lambda>a. agent.docId a \<notin> ?K) ?sorted (agents d)"
    by (simp add: deleteAllButNAgents_def mutation_def deleteAllButNAgents_handler_def Let_def)
  have c: "xVerificationChallenges (fst (deleteAllButNAgents keep d)) =
           deleteLoop xVerificationChallenge.docId (\<lambda>c. xVerificationChallenge.agentId c \<notin> ?K)
             (xVerificationChallenges d) (xVerificationChallenges d)"
    by (simp add: deleteAllButNAgents_def mutation_def deleteAllButNAgents_handler_def Let_def)
  have "agents (fst (deleteAllButNAgents keep d)) = filter (\<lambda>x. agent.docId x \<in> ?K) (agents d)"
    unfolding a by (rule deleteLoop_agents) simp
  moreover have "set (xVerificationChallenges (fst (deleteAllButNAgents keep d)))
          \<subseteq> {c \<in> set (xVerificationChallenges d). xVerificationChallenge.agentId c \<in> ?K}"
    unfolding c
  proof
    fix x
    assume x: "x \<in> set (deleteLoop xVerificationChallenge.docId
                 (\<lambda>c. xVerificationChallenge.agentId c \<notin> ?K)
                 (xVerificationChallenges d) (xVerificationChallenges d))"
    then have "x \<in> set (xVerificationChallenges d)"
      by (rule subsetD [OF deleteLoop_subset])
    moreover from x have "\<not> xVerificationChallenge.agentId x \<notin> ?K"
      by (rule deleteLoop_self)
    ultimately show "x \<in> {c \<in> set (xVerificationChallenges d).
                          xVerificationChallenge.agentId c \<in> ?K}"
      by simp
  qed
  ultimately show ?thesis by blast
qed

lemma wf_deleteBut:
  assumes "wf_db d"
  shows "wf_db (fst (deleteAllButNAgents keep d))"
proof -
  from deleteBut_tables [of keep d] obtain K where
    a: "agents (fst (deleteAllButNAgents keep d)) = filter (\<lambda>x. agent.docId x \<in> K) (agents d)"
    and c: "set (xVerificationChallenges (fst (deleteAllButNAgents keep d)))
          \<subseteq> {c \<in> set (xVerificationChallenges d). xVerificationChallenge.agentId c \<in> K}"
    by blast
  have g: "db_get agent.docId (filter (\<lambda>x. agent.docId x \<in> K) (agents d)) i =
        (if i \<in> K then db_get agent.docId (agents d) i else None)" for i
    by (rule db_get_filter) simp
  show ?thesis
    unfolding wf_db_def a
  proof
    fix ch assume "ch \<in> set (xVerificationChallenges (fst (deleteAllButNAgents keep d)))"
    with c have m: "ch \<in> set (xVerificationChallenges d)"
      and k: "xVerificationChallenge.agentId ch \<in> K"
      by auto
    from assms m have "db_get agent.docId (agents d) (xVerificationChallenge.agentId ch) \<noteq> None
        \<and> (case completedAt ch of None \<Rightarrow> True | Some t \<Rightarrow> 0 < t)"
      by (simp add: wf_db_def)
    with k g show "db_get agent.docId (filter (\<lambda>x. agent.docId x \<in> K) (agents d))
             (xVerificationChallenge.agentId ch) \<noteq> None
        \<and> (case completedAt ch of None \<Rightarrow> True | Some t \<Rightarrow> 0 < t)"
      by simp
  qed
qed

lemma inv_subset:
  "atMostOneOwner d \<Longrightarrow> set (agents d') \<subseteq> set (agents d) \<Longrightarrow> atMostOneOwner d'"
  unfolding atMostOneOwner_def by blast

lemma inv_deleteBut:
  assumes "atMostOneOwner d"
  shows "atMostOneOwner (fst (deleteAllButNAgents keep d))"
proof -
  from deleteBut_tables [of keep d] have "set (agents (fst (deleteAllButNAgents keep d))) \<subseteq> set (agents d)"
    by auto
  with assms show ?thesis by (rule inv_subset)
qed

lemma wipe_tables:
  "fst (deleteAllAgentsAndData w d) = d
   \<or> agents (fst (deleteAllAgentsAndData w d)) = []
     \<and> xVerificationChallenges (fst (deleteAllAgentsAndData w d)) = []
     \<and> clapEvents (fst (deleteAllAgentsAndData w d)) = []"
  by (simp add: deleteAllAgentsAndData_def mutation_def deleteAllAgentsAndData_handler_def
      Let_def deleteLoop_all)

lemma wf_wipe:
  assumes "wf_db d"
  shows "wf_db (fst (deleteAllAgentsAndData w d))"
  using wipe_tables [of w d] assms by (auto simp add: wf_db_def)

lemma inv_wipe:
  assumes "atMostOneOwner d"
  shows "atMostOneOwner (fst (deleteAllAgentsAndData w d))"
proof -
  from wipe_tables [of w d] have "set (agents (fst (deleteAllAgentsAndData w d))) \<subseteq> set (agents d)"
    by auto
  with assms show ?thesis by (rule inv_subset)
qed

lemma run_snoc: "run (cs @ [(now, c)]) = execAny now c (run cs)"
  by (simp add: run_def)

lemma run_invariants:
  "timesPositive cs \<Longrightarrow> wf_db (run cs) \<and> atMostOneOwner (run cs)"
proof (induction cs rule: rev_induct)
  case Nil
  show ?case by (simp add: run_def emptyDb_def wf_db_def atMostOneOwner_def)
next
  case (snoc x cs)
  obtain now c where x: "x = (now, c)" by (cases x)
  from snoc.prems x have p: "timesPositive cs" and n: "0 < now"
    by (simp_all add: timesPositive_def)
  from snoc.IH [OF p] have w: "wf_db (run cs)" and i: "atMostOneOwner (run cs)"
    by simp_all
  show ?case
  proof (cases c)
    case (Call k)
    with x w i n wf_exec [of "run cs" now k] inv_exec [of "run cs" now k] show ?thesis
      by (simp add: run_snoc)
  next
    case (DeleteAllButNAgents keep)
    with x w i wf_deleteBut [of "run cs" keep] inv_deleteBut [of "run cs" keep] show ?thesis
      by (simp add: run_snoc)
  next
    case (DeleteAllAgentsAndData s)
    with x w i wf_wipe [of "run cs" s] inv_wipe [of "run cs" s] show ?thesis
      by (simp add: run_snoc)
  qed
qed


lemma inv_execAny:
  assumes "atMostOneOwner d"
  shows "atMostOneOwner (execAny now c d)"
proof (cases c)
  case (Call k)
  with inv_exec [OF assms] show ?thesis by simp
next
  case (DeleteAllButNAgents keep)
  with inv_deleteBut [OF assms] show ?thesis by simp
next
  case (DeleteAllAgentsAndData w)
  with inv_wipe [OF assms] show ?thesis by simp
qed

lemma inv_run: "atMostOneOwner (run cs)"
proof (induction cs rule: rev_induct)
  case Nil
  show ?case by (simp add: run_def emptyDb_def atMostOneOwner_def)
next
  case (snoc x cs)
  obtain now c where "x = (now, c)" by (cases x)
  with snoc.IH inv_execAny [of "run cs" now c] show ?case
    by (simp add: run_snoc)
qed

lemma wf_completed:
  assumes "wf_db d"
    and "db_get xVerificationChallenge.docId (xVerificationChallenges d) c = Some ch"
  shows "truthy (completedAt ch) = (completedAt ch \<noteq> None)"
    and "db_get agent.docId (agents d) (xVerificationChallenge.agentId ch) \<noteq> None"
proof -
  from assms(2) have "ch \<in> set (xVerificationChallenges d)" by (rule db_get_mem)
  with assms(1) have w: "db_get agent.docId (agents d) (xVerificationChallenge.agentId ch) \<noteq> None
        \<and> (case completedAt ch of None \<Rightarrow> True | Some t \<Rightarrow> 0 < t)"
    by (simp add: wf_db_def)
  then show "truthy (completedAt ch) = (completedAt ch \<noteq> None)"
    by (cases "completedAt ch") (simp_all add: truthy_def)
  from w show "db_get agent.docId (agents d) (xVerificationChallenge.agentId ch) \<noteq> None"
    by simp
qed

lemma handles_scenario:
  "normalizeXHandle ''@jeb'' = ''jeb''" "normalizeXHandle ''jeb'' = ''jeb''"
  "normalizeXHandle ''bob'' = ''bob''" "trim ''alice'' = ''alice''" "trim ''bob'' = ''bob''"
  by (simp_all add: normalizeXHandle_def trim_def toLowerCase_def isWhiteSpace_def)

lemma run_scenario: "run scenario = dbS"
  by (simp add: run_def scenario_def emptyDb_def dbS_def alice_def bob_def newChallenge_def
      chDone_def chLate_def chJeb_def chBob_def handles_scenario
      registerAgent_def registerAgent_handler_def mutation_def insertAgent_def
      createXVerificationChallenge_def createXVerificationChallenge_handler_def
      db_get_def existingOwner_def by_x_verified_def insertChallenge_def patchAgent_def
      completeXVerificationChallenge_def completeXVerificationChallenge_handler_def
      truthy_def patchChallenge_def Let_def)

lemma positive_scenario: "timesPositive scenario"
  by (simp add: timesPositive_def scenario_def)

lemma dbS_get:
  "db_get xVerificationChallenge.docId (xVerificationChallenges (run scenario)) 99 = None"
  "db_get xVerificationChallenge.docId (xVerificationChallenges (run scenario)) 2 = Some chDone"
  "db_get xVerificationChallenge.docId (xVerificationChallenges (run scenario)) 3 = Some chLate"
  "db_get xVerificationChallenge.docId (xVerificationChallenges (run scenario)) 4 = Some chJeb"
  "db_get xVerificationChallenge.docId (xVerificationChallenges (run scenario)) 5 = Some chBob"
  "db_get agent.docId (agents (run scenario)) 0 = Some alice"
  "db_get agent.docId (agents (run scenario)) 1 = Some bob"
  by (simp_all add: run_scenario db_get_def dbS_def chBob_def chDone_def chLate_def chJeb_def
      newChallenge_def alice_def bob_def)

lemma dbS_owner: "verifiedOwner (run scenario) ''jeb'' alice"
  by (simp add: run_scenario verifiedOwner_def dbS_def alice_def)

text \<open>
  C8. In a well-formed database (the agent of every challenge exists and every
  \<open>completedAt\<close> is a positive time), \<open>completeXVerificationChallenge\<close> fails and leaves
  the database as it was, with an error of its own for each case, when the challenge
  does not exist, when its \<open>completedAt\<close> is set, and when its \<open>expiresAt\<close> is before
  \<open>now\<close>. When none of these hold and no other agent is a verified owner of the
  challenge's handle, it succeeds: the challenge gets \<open>completedAt = now\<close>, the agent
  becomes verified with the challenge's handle, and nothing else changes; after that the
  challenge cannot be completed again. Every database that the mutations produce from the
  empty one, at positive times, is well formed.
\<close>

theorem complete_challenge:
  assumes "wf_db d"
  shows
  "(db_get xVerificationChallenge.docId (xVerificationChallenges d) c = None \<longrightarrow>
      completeXVerificationChallenge now c u d = (d, Inl Challenge_not_found))
   \<and> (\<forall>ch. db_get xVerificationChallenge.docId (xVerificationChallenges d) c = Some ch
        \<and> completedAt ch \<noteq> None \<longrightarrow>
      completeXVerificationChallenge now c u d = (d, Inl Challenge_already_completed))
   \<and> (\<forall>ch. db_get xVerificationChallenge.docId (xVerificationChallenges d) c = Some ch
        \<and> xVerificationChallenge.expiresAt ch < now \<longrightarrow>
      completeXVerificationChallenge now c u d =
        (d, Inl (if completedAt ch \<noteq> None then Challenge_already_completed
                 else Challenge_expired)))
   \<and> distinct [Challenge_not_found, Challenge_already_completed, Challenge_expired,
        Handle_already_linked]
   \<and> (\<forall>ch. db_get xVerificationChallenge.docId (xVerificationChallenges d) c = Some ch
        \<and> completedAt ch = None
        \<and> \<not> xVerificationChallenge.expiresAt ch < now
        \<and> (\<forall>w \<in> set (agents d).
              xVerified w \<and> xHandle w = Some (xVerificationChallenge.xHandle ch)
              \<longrightarrow> agent.docId w = xVerificationChallenge.agentId ch) \<longrightarrow>
      snd (completeXVerificationChallenge now c u d) =
        Inr \<lparr> completeResult.ok = True, agentId = xVerificationChallenge.agentId ch,
              xHandle = xVerificationChallenge.xHandle ch \<rparr>
      \<and> db_get xVerificationChallenge.docId
          (xVerificationChallenges (fst (completeXVerificationChallenge now c u d))) c =
          Some (ch\<lparr> completedAt := Some now, matchedPostUrl := u \<rparr>)
      \<and> (\<forall>j. j \<noteq> c \<longrightarrow>
            db_get xVerificationChallenge.docId
              (xVerificationChallenges (fst (completeXVerificationChallenge now c u d))) j =
            db_get xVerificationChallenge.docId (xVerificationChallenges d) j)
      \<and> (\<exists>a. db_get agent.docId (agents d) (xVerificationChallenge.agentId ch) = Some a
            \<and> db_get agent.docId (agents (fst (completeXVerificationChallenge now c u d)))
                (xVerificationChallenge.agentId ch) =
                Some (a\<lparr> xHandle := Some (xVerificationChallenge.xHandle ch),
                         xVerified := True, updatedAt := now \<rparr>))
      \<and> (\<forall>j. j \<noteq> xVerificationChallenge.agentId ch \<longrightarrow>
            db_get agent.docId (agents (fst (completeXVerificationChallenge now c u d))) j =
            db_get agent.docId (agents d) j)
      \<and> clapEvents (fst (completeXVerificationChallenge now c u d)) = clapEvents d
      \<and> (0 < now \<longrightarrow>
           (\<forall>now' u'. completeXVerificationChallenge now' c u'
                        (fst (completeXVerificationChallenge now c u d)) =
              (fst (completeXVerificationChallenge now c u d),
               Inl Challenge_already_completed))))
   \<and> (timesPositive cs \<longrightarrow> wf_db (run cs))"
proof (intro conjI allI impI)
  assume "db_get xVerificationChallenge.docId (xVerificationChallenges d) c = None"
  then show "completeXVerificationChallenge now c u d = (d, Inl Challenge_not_found)"
    by (intro complete_mutation_error complete_not_found)
next
  fix ch
  assume h: "db_get xVerificationChallenge.docId (xVerificationChallenges d) c = Some ch
        \<and> completedAt ch \<noteq> None"
  then have g: "db_get xVerificationChallenge.docId (xVerificationChallenges d) c = Some ch"
    by simp
  from h wf_completed(1) [OF assms g] have "truthy (completedAt ch)" by simp
  with complete_errors [OF g, of now u]
  show "completeXVerificationChallenge now c u d = (d, Inl Challenge_already_completed)"
    by (intro complete_mutation_error) simp
next
  fix ch
  assume h: "db_get xVerificationChallenge.docId (xVerificationChallenges d) c = Some ch
        \<and> xVerificationChallenge.expiresAt ch < now"
  then have g: "db_get xVerificationChallenge.docId (xVerificationChallenges d) c = Some ch"
    by simp
  from h complete_errors [OF g, of now u] wf_completed(1) [OF assms g]
  show "completeXVerificationChallenge now c u d =
        (d, Inl (if completedAt ch \<noteq> None then Challenge_already_completed
                 else Challenge_expired))"
    by (intro complete_mutation_error) simp
next
  show "distinct [Challenge_not_found, Challenge_already_completed, Challenge_expired,
        Handle_already_linked]"
    by simp
next
  assume "timesPositive cs"
  then show "wf_db (run cs)" by (simp add: run_invariants)
next
  fix ch
  assume h: "db_get xVerificationChallenge.docId (xVerificationChallenges d) c = Some ch
        \<and> completedAt ch = None
        \<and> \<not> xVerificationChallenge.expiresAt ch < now
        \<and> (\<forall>w \<in> set (agents d).
              xVerified w \<and> xHandle w = Some (xVerificationChallenge.xHandle ch)
              \<longrightarrow> agent.docId w = xVerificationChallenge.agentId ch)"
  then have g: "db_get xVerificationChallenge.docId (xVerificationChallenges d) c = Some ch"
    by simp
  from wf_completed(2) [OF assms g] obtain a
    where a: "db_get agent.docId (agents d) (xVerificationChallenge.agentId ch) = Some a"
    by blast
  from h have nt: "\<not> truthy (completedAt ch)" by (simp add: truthy_def)
  from h nt a complete_success [of d c ch now a u] obtain d' where
    m: "completeXVerificationChallenge now c u d =
           (d', Inr \<lparr> completeResult.ok = True, agentId = xVerificationChallenge.agentId ch,
                      xHandle = xVerificationChallenge.xHandle ch \<rparr>)"
    and r: "db_get xVerificationChallenge.docId (xVerificationChallenges d') c =
           Some (ch\<lparr> completedAt := Some now, matchedPostUrl := u \<rparr>)"
       "\<forall>j. j \<noteq> c \<longrightarrow> db_get xVerificationChallenge.docId (xVerificationChallenges d') j =
             db_get xVerificationChallenge.docId (xVerificationChallenges d) j"
       "db_get agent.docId (agents d') (xVerificationChallenge.agentId ch) =
           Some (a\<lparr> xHandle := Some (xVerificationChallenge.xHandle ch), xVerified := True,
                    updatedAt := now \<rparr>)"
       "\<forall>j. j \<noteq> xVerificationChallenge.agentId ch \<longrightarrow>
             db_get agent.docId (agents d') j = db_get agent.docId (agents d) j"
       "clapEvents d' = clapEvents d"
    by blast
  from m have f: "fst (completeXVerificationChallenge now c u d) = d'" by simp
  from m show "snd (completeXVerificationChallenge now c u d) =
        Inr \<lparr> completeResult.ok = True, agentId = xVerificationChallenge.agentId ch,
              xHandle = xVerificationChallenge.xHandle ch \<rparr>"
    by simp
  from r(1) f show "db_get xVerificationChallenge.docId
          (xVerificationChallenges (fst (completeXVerificationChallenge now c u d))) c =
          Some (ch\<lparr> completedAt := Some now, matchedPostUrl := u \<rparr>)"
    by simp
  from a r(3) f show "\<exists>a. db_get agent.docId (agents d) (xVerificationChallenge.agentId ch) = Some a
            \<and> db_get agent.docId (agents (fst (completeXVerificationChallenge now c u d)))
                (xVerificationChallenge.agentId ch) =
                Some (a\<lparr> xHandle := Some (xVerificationChallenge.xHandle ch),
                         xVerified := True, updatedAt := now \<rparr>)"
    by simp
  from r(5) f show "clapEvents (fst (completeXVerificationChallenge now c u d)) = clapEvents d"
    by simp
  {
    fix j assume "j \<noteq> c"
    with r(2) f show "db_get xVerificationChallenge.docId
              (xVerificationChallenges (fst (completeXVerificationChallenge now c u d))) j =
            db_get xVerificationChallenge.docId (xVerificationChallenges d) j"
      by simp
  }
  {
    fix j assume "j \<noteq> xVerificationChallenge.agentId ch"
    with r(4) f show "db_get agent.docId (agents (fst (completeXVerificationChallenge now c u d))) j =
            db_get agent.docId (agents d) j"
      by simp
  }
  {
    fix now' u' assume "0 < now"
    then have "now \<noteq> 0" by simp
    from complete_twice [OF m this, of now' u'] f
    show "completeXVerificationChallenge now' c u'
                        (fst (completeXVerificationChallenge now c u d)) =
              (fst (completeXVerificationChallenge now c u d),
               Inl Challenge_already_completed)"
      by simp
  }
qed

theorem complete_challenge_witness:
  "timesPositive scenario \<and> wf_db (run scenario)
   \<and> completeXVerificationChallenge 100 99 None (run scenario) =
       (run scenario, Inl Challenge_not_found)
   \<and> completedAt chDone \<noteq> None
   \<and> completeXVerificationChallenge 100 2 None (run scenario) =
       (run scenario, Inl Challenge_already_completed)
   \<and> xVerificationChallenge.expiresAt chLate < 100
   \<and> completeXVerificationChallenge 100 3 None (run scenario) =
       (run scenario, Inl Challenge_expired)
   \<and> snd (completeXVerificationChallenge 100 5 None (run scenario)) =
       Inr \<lparr> completeResult.ok = True, agentId = 1, xHandle = ''bob'' \<rparr>
   \<and> db_get agent.docId (agents (fst (completeXVerificationChallenge 100 5 None (run scenario)))) 1 =
       Some (bob\<lparr> xHandle := Some ''bob'', xVerified := True, updatedAt := 100 \<rparr>)
   \<and> completeXVerificationChallenge 200 5 None
        (fst (completeXVerificationChallenge 100 5 None (run scenario))) =
       (fst (completeXVerificationChallenge 100 5 None (run scenario)),
        Inl Challenge_already_completed)"
proof -
  have w0: "wf_db emptyDb"
    by (simp add: wf_db_def emptyDb_def)
  have w: "wf_db (run scenario)"
    using complete_challenge [OF w0, of _ _ _ scenario, THEN conjunct2, THEN conjunct2,
        THEN conjunct2, THEN conjunct2, THEN conjunct2]
      positive_scenario by simp
  have f: "completedAt chDone \<noteq> None" "xVerificationChallenge.expiresAt chLate < 100"
    "completedAt chLate = None" "completedAt chBob = None"
    "\<not> xVerificationChallenge.expiresAt chBob < 100"
    "xVerificationChallenge.agentId chBob = 1" "xVerificationChallenge.xHandle chBob = ''bob''"
    by (simp_all add: chDone_def chLate_def chBob_def newChallenge_def)
  have n: "\<forall>w \<in> set (agents (run scenario)).
              xVerified w \<and> xHandle w = Some (xVerificationChallenge.xHandle chBob)
              \<longrightarrow> agent.docId w = xVerificationChallenge.agentId chBob"
    by (simp add: run_scenario dbS_def alice_def bob_def f)
  have c1: "completeXVerificationChallenge 100 99 None (run scenario) =
       (run scenario, Inl Challenge_not_found)"
    using complete_challenge [OF w, of 99 100 None, THEN conjunct1] dbS_get(1) by simp
  have c2: "completeXVerificationChallenge 100 2 None (run scenario) =
       (run scenario, Inl Challenge_already_completed)"
    using complete_challenge [OF w, of 2 100 None, THEN conjunct2, THEN conjunct1,
        rule_format, of chDone]
      dbS_get(2) f(1) by simp
  have c3: "completeXVerificationChallenge 100 3 None (run scenario) =
       (run scenario, Inl Challenge_expired)"
    using complete_challenge [OF w, of 3 100 None, THEN conjunct2, THEN conjunct2,
        THEN conjunct1, rule_format, of chLate]
      dbS_get(3) f(2,3) by simp
  have p: "db_get xVerificationChallenge.docId (xVerificationChallenges (run scenario)) 5 = Some chBob
        \<and> completedAt chBob = None
        \<and> \<not> xVerificationChallenge.expiresAt chBob < 100
        \<and> (\<forall>w \<in> set (agents (run scenario)).
              xVerified w \<and> xHandle w = Some (xVerificationChallenge.xHandle chBob)
              \<longrightarrow> agent.docId w = xVerificationChallenge.agentId chBob)"
    using dbS_get(5) f(4,5) n by simp
  note S = complete_challenge [OF w, of 5 100 None, THEN conjunct2, THEN conjunct2,
      THEN conjunct2, THEN conjunct2, THEN conjunct1, rule_format, OF p]
  from S have s1: "snd (completeXVerificationChallenge 100 5 None (run scenario)) =
        Inr \<lparr> completeResult.ok = True, agentId = xVerificationChallenge.agentId chBob,
              xHandle = xVerificationChallenge.xHandle chBob \<rparr>"
    by (rule conjunct1)
  from S have s2: "\<exists>a. db_get agent.docId (agents (run scenario))
                (xVerificationChallenge.agentId chBob) = Some a
            \<and> db_get agent.docId
                (agents (fst (completeXVerificationChallenge 100 5 None (run scenario))))
                (xVerificationChallenge.agentId chBob) =
                Some (a\<lparr> xHandle := Some (xVerificationChallenge.xHandle chBob),
                         xVerified := True, updatedAt := 100 \<rparr>)"
    by (elim conjE)
  from S have s3: "(0::real) < 100 \<longrightarrow>
           (\<forall>now' u'. completeXVerificationChallenge now' 5 u'
                        (fst (completeXVerificationChallenge 100 5 None (run scenario))) =
              (fst (completeXVerificationChallenge 100 5 None (run scenario)),
               Inl Challenge_already_completed))"
    by (elim conjE)
  from s1 f(6,7) have r1: "snd (completeXVerificationChallenge 100 5 None (run scenario)) =
       Inr \<lparr> completeResult.ok = True, agentId = 1, xHandle = ''bob'' \<rparr>"
    by simp
  from s2 dbS_get(7) f(6,7)
  have r2: "db_get agent.docId
        (agents (fst (completeXVerificationChallenge 100 5 None (run scenario)))) 1 =
       Some (bob\<lparr> xHandle := Some ''bob'', xVerified := True, updatedAt := 100 \<rparr>)"
    by auto
  from s3 have r3: "completeXVerificationChallenge 200 5 None
        (fst (completeXVerificationChallenge 100 5 None (run scenario))) =
       (fst (completeXVerificationChallenge 100 5 None (run scenario)),
        Inl Challenge_already_completed)"
    by simp
  from positive_scenario w c1 f(1) c2 f(2) c3 r1 r2 r3 show ?thesis
    by (intro conjI)
qed

text \<open>
  C9. In a database where a handle is bound to at most one verified agent and the handle
  \<open>h\<close> is bound to the verified agent \<open>a\<close>: \<open>createXVerificationChallenge\<close> for \<open>h\<close> on
  behalf of another agent fails with the conflict error (with \<open>Agent_not_found\<close> when that
  agent does not exist), and \<open>completeXVerificationChallenge\<close> of a challenge of another
  agent for \<open>h\<close> fails, with the conflict error when the challenge is neither completed
  nor expired, and with the error of those checks otherwise; both leave the database as
  it was. Every call of a mutation keeps a handle bound to at most one verified agent, and
  so it is in every database that the mutations produce from the empty one.
\<close>

theorem handle_conflict:
  assumes "atMostOneOwner d" and "verifiedOwner d h a" and "j \<noteq> agent.docId a"
  shows "(normalizeXHandle raw = h \<longrightarrow>
            createXVerificationChallenge now j raw t e d =
              (d, Inl (if db_get agent.docId (agents d) j = None then Agent_not_found
                       else Handle_already_linked)))
       \<and> (\<forall>ch. db_get xVerificationChallenge.docId (xVerificationChallenges d) c = Some ch
             \<and> xVerificationChallenge.agentId ch = j \<and> xVerificationChallenge.xHandle ch = h
             \<longrightarrow> completeXVerificationChallenge now c u d =
               (d, Inl (if truthy (completedAt ch) then Challenge_already_completed
                        else if xVerificationChallenge.expiresAt ch < now then Challenge_expired
                        else Handle_already_linked)))
       \<and> atMostOneOwner (execAny now call d)
       \<and> atMostOneOwner (run cs)"
proof (intro conjI allI impI)
  assume n: "normalizeXHandle raw = h"
  show "createXVerificationChallenge now j raw t e d =
              (d, Inl (if db_get agent.docId (agents d) j = None then Agent_not_found
                       else Handle_already_linked))"
  proof (cases "db_get agent.docId (agents d) j")
    case None
    then show ?thesis
      by (simp add: createXVerificationChallenge_def mutation_def
          createXVerificationChallenge_handler_def)
  next
    case (Some b)
    from assms(2) n have "verifiedOwner d (normalizeXHandle raw) a" by simp
    from create_conflict [OF assms(1) this assms(3) Some, of now t e] Some show ?thesis
      by (simp add: createXVerificationChallenge_def mutation_def)
  qed
next
  fix ch
  assume h: "db_get xVerificationChallenge.docId (xVerificationChallenges d) c = Some ch
             \<and> xVerificationChallenge.agentId ch = j \<and> xVerificationChallenge.xHandle ch = h"
  then have g: "db_get xVerificationChallenge.docId (xVerificationChallenges d) c = Some ch"
    and aj: "xVerificationChallenge.agentId ch = j"
    and hh: "xVerificationChallenge.xHandle ch = h"
    by simp_all
  from assms(2) hh have vo: "verifiedOwner d (xVerificationChallenge.xHandle ch) a"
    by simp
  from assms(3) aj have ne: "xVerificationChallenge.agentId ch \<noteq> agent.docId a"
    by simp
  have "(case existingOwner d (xVerificationChallenge.xHandle ch) of None \<Rightarrow> False
          | Some owner \<Rightarrow> agent.docId owner \<noteq> xVerificationChallenge.agentId ch)"
    by (rule owner_conflict [OF assms(1) vo ne])
  then have "completeXVerificationChallenge_handler now c u d =
               (d, Inl (if truthy (completedAt ch) then Challenge_already_completed
                        else if xVerificationChallenge.expiresAt ch < now then Challenge_expired
                        else Handle_already_linked))"
    using complete_errors [OF g, of now u] by blast
  then show "completeXVerificationChallenge now c u d =
               (d, Inl (if truthy (completedAt ch) then Challenge_already_completed
                        else if xVerificationChallenge.expiresAt ch < now then Challenge_expired
                        else Handle_already_linked))"
    by (rule complete_mutation_error)
next
  show "atMostOneOwner (execAny now call d)"
    using assms(1) by (rule inv_execAny)
next
  show "atMostOneOwner (run cs)"
    by (rule inv_run)
qed

theorem handle_conflict_witness:
  "atMostOneOwner (run scenario) \<and> verifiedOwner (run scenario) ''jeb'' alice
   \<and> 1 \<noteq> agent.docId alice
   \<and> normalizeXHandle ''@jeb'' = ''jeb''
   \<and> createXVerificationChallenge 100 1 ''@jeb'' ''claim B'' 1000 (run scenario) =
       (run scenario, Inl Handle_already_linked)
   \<and> db_get xVerificationChallenge.docId (xVerificationChallenges (run scenario)) 4 = Some chJeb
   \<and> completeXVerificationChallenge 100 4 None (run scenario) =
       (run scenario, Inl Handle_already_linked)"
proof -
  have i: "1 \<noteq> agent.docId alice" by (simp add: alice_def)
  have v: "atMostOneOwner (run scenario)"
    by (rule inv_run)
  have f: "xVerificationChallenge.agentId chJeb = 1" "xVerificationChallenge.xHandle chJeb = ''jeb''"
    "\<not> truthy (completedAt chJeb)" "\<not> xVerificationChallenge.expiresAt chJeb < 100"
    by (simp_all add: chJeb_def newChallenge_def truthy_def)
  have c1: "createXVerificationChallenge 100 1 ''@jeb'' ''claim B'' 1000 (run scenario) =
       (run scenario, Inl Handle_already_linked)"
    using handle_conflict [OF v dbS_owner i, of "''@jeb''" 100 "''claim B''" 1000,
        THEN conjunct1]
      handles_scenario(1) dbS_get(7) by simp
  have c2: "completeXVerificationChallenge 100 4 None (run scenario) =
       (run scenario, Inl Handle_already_linked)"
    using handle_conflict [OF v dbS_owner i, of _ 100 _ _ 4 None, THEN conjunct2,
        THEN conjunct1, rule_format, of chJeb]
      dbS_get(4) f by simp
  from v dbS_owner i handles_scenario(1) c1 dbS_get(4) c2 show ?thesis
    by (intro conjI)
qed

text \<open>
  The error is not always the conflict error: the challenge \<open>chLate\<close> of \<open>bob\<close> for the
  handle \<open>jeb\<close>, which \<open>alice\<close> owns as a verified agent, expired at time 7, and
  completing it at time 100 fails with \<open>Challenge_expired\<close>.
\<close>

theorem handle_conflict_counterexample:
  "verifiedOwner (run scenario) ''jeb'' alice
   \<and> db_get xVerificationChallenge.docId (xVerificationChallenges (run scenario)) 3 = Some chLate
   \<and> xVerificationChallenge.agentId chLate = 1
   \<and> xVerificationChallenge.xHandle chLate = ''jeb''
   \<and> agent.docId alice \<noteq> 1
   \<and> completeXVerificationChallenge 100 3 None (run scenario) =
       (run scenario, Inl Challenge_expired)
   \<and> snd (completeXVerificationChallenge 100 3 None (run scenario)) \<noteq> Inl Handle_already_linked"
proof -
  have f: "xVerificationChallenge.agentId chLate = 1" "xVerificationChallenge.xHandle chLate = ''jeb''"
    "\<not> truthy (completedAt chLate)" "xVerificationChallenge.expiresAt chLate < 100"
    by (simp_all add: chLate_def newChallenge_def truthy_def)
  have "completeXVerificationChallenge_handler 100 3 None (run scenario) =
          (run scenario, Inl Challenge_expired)"
    using complete_errors [OF dbS_get(3), of 100 None] f by simp
  then have "completeXVerificationChallenge 100 3 None (run scenario) =
          (run scenario, Inl Challenge_expired)"
    by (rule complete_mutation_error)
  with dbS_owner dbS_get(3) f show ?thesis
    by (simp add: alice_def)
qed

end
